theory Spec2Isabelle
  imports Main "HOL-Library.Word"
begin

unbundle bit_operations_syntax

section \<open>Common types\<close>

type_synonym u8 = "8 word"
type_synonym u32 = "32 word"

text \<open>The multi-precision limb \<^verbatim>\<open>word\<close> (64 bits, \<^verbatim>\<open>BOTAN_MP_WORD_BITS == 64\<close>).\<close>
type_synonym mp_word = "64 word"

text \<open>
  Every exception the modelled functions throw is a value.  \<open>Std_out_of_range\<close> is the
  C++ standard exception thrown by \<^verbatim>\<open>std::map::at\<close>; \<open>Assertion_Failure\<close> is what
  \<^verbatim>\<open>BOTAN_ASSERT\<close> raises; the others are the library's exception classes of the same name.
\<close>
datatype error =
    Invalid_Argument
  | Unsupported_Argument
  | Decoding_Error
  | Assertion_Failure
  | Std_out_of_range

text \<open>
  The library derives \<^verbatim>\<open>Unsupported_Argument\<close> from \<^verbatim>\<open>Invalid_Argument\<close> (in
  \<^verbatim>\<open>exceptn.h\<close>, which is not among the sources at hand), so a handler for
  \<^verbatim>\<open>Invalid_Argument\<close> receives both; \<^verbatim>\<open>std::out_of_range\<close> is outside the library's
  hierarchy.
\<close>
definition is_Invalid_Argument :: "error \<Rightarrow> bool" where
  "is_Invalid_Argument e = (e = Invalid_Argument \<or> e = Unsupported_Argument)"

section \<open>Constant-time helpers (\<^verbatim>\<open>CT::\<close>)\<close>

text \<open>
  Modelled from the spec: \<^verbatim>\<open>ct_utils.h\<close> is not part of the sources at hand.
  \<^verbatim>\<open>expand_mask(predicate)\<close> widens a boolean to all-zeros or all-ones,
  \<^verbatim>\<open>is_equal(x, y)\<close> is all-ones exactly when \<open>x = y\<close>, and
  \<^verbatim>\<open>select(mask, a, b)\<close> is \<open>(a & mask) | (b & ~mask)\<close>.
\<close>

definition expand_mask :: "bool \<Rightarrow> mp_word" where
  "expand_mask predicate = (if predicate then - 1 else 0)"

definition is_equal :: "nat \<Rightarrow> nat \<Rightarrow> mp_word" where
  "is_equal x y = (if x = y then - 1 else 0)"

definition select :: "mp_word \<Rightarrow> mp_word \<Rightarrow> mp_word \<Rightarrow> mp_word" where
  "select msk a b = (a AND msk) OR (b AND NOT msk)"

section \<open>BigInt\<close>

datatype Sign = Negative | Positive

text \<open>A BigInt is its limb vector (\<^verbatim>\<open>m_data\<close>, little-endian by word) and its sign.\<close>
record BigInt =
  m_data :: "mp_word list"
  m_signedness :: Sign

definition size_b :: "BigInt \<Rightarrow> nat" where
  "size_b b = length (m_data b)"

text \<open>
  Modelled from the spec: the accessors of \<^verbatim>\<open>bigint.h\<close> are not part of the sources
  at hand.  \<^verbatim>\<open>word_at(n)\<close> reads limb \<open>n\<close> and is zero past the end of the vector;
  \<^verbatim>\<open>set_word_at(i, w)\<close> grows the receiver as necessary (here: with zero limbs, up
  to index \<open>i\<close>) and then stores \<open>w\<close>.
\<close>
definition word_at :: "BigInt \<Rightarrow> nat \<Rightarrow> mp_word" where
  "word_at b n = (if n < size_b b then m_data b ! n else 0)"

definition grow_to :: "BigInt \<Rightarrow> nat \<Rightarrow> BigInt" where
  "grow_to b n = (if n > size_b b then b\<lparr>m_data := m_data b @ replicate (n - size_b b) 0\<rparr> else b)"

definition set_word_at :: "BigInt \<Rightarrow> nat \<Rightarrow> mp_word \<Rightarrow> BigInt" where
  "set_word_at b i w =
     (let b' = (if i \<ge> size_b b then grow_to b (i + 1) else b)
      in b'\<lparr>m_data := (m_data b')[i := w]\<rparr>)"

text \<open>
  \<^verbatim>\<open>BigInt::ct_cond_assign(bool predicate, BigInt& other)\<close>; the receiver is the
  first argument.  \<open>assign_loop\<close> is the \<^verbatim>\<open>for\<close> loop over the limb indices
  \<open>0, \<dots>, r_words - 1\<close>.
\<close>
definition assign_loop :: "mp_word \<Rightarrow> BigInt \<Rightarrow> BigInt \<Rightarrow> nat \<Rightarrow> BigInt" where
  "assign_loop msk this other r_words =
     foldl (\<lambda>t i. set_word_at t i (select msk (word_at other i) (word_at t i)))
           this [0..<r_words]"

definition ct_cond_assign :: "BigInt \<Rightarrow> bool \<Rightarrow> BigInt \<Rightarrow> BigInt" where
  "ct_cond_assign this predicate other =
     (let t_words = size_b this;
          o_words = size_b other;
          r_words = max t_words o_words;
          msk = expand_mask predicate
      in assign_loop msk this other r_words)"

text \<open>
  \<^verbatim>\<open>BigInt::const_time_lookup\<close>.  The inner loop ORs the masked limbs of one entry into
  the output; the outer loop walks the vector, asserting the size of every entry.
\<close>
definition lookup_words :: "mp_word \<Rightarrow> BigInt \<Rightarrow> mp_word list \<Rightarrow> mp_word list" where
  "lookup_words msk b output =
     foldl (\<lambda>out w. out[w := (out ! w) OR select msk (word_at b w) 0])
           output [0..<length output]"

fun lookup_loop :: "BigInt list \<Rightarrow> nat \<Rightarrow> nat \<Rightarrow> mp_word list \<Rightarrow> error + mp_word list" where
  "lookup_loop [] i idx output = Inr output"
| "lookup_loop (b # bs) i idx output =
     (if \<not> (size_b b \<ge> length output) then Inl Assertion_Failure
      else lookup_loop bs (i + 1) idx (lookup_words (is_equal i idx) b output))"

definition const_time_lookup :: "mp_word list \<Rightarrow> BigInt list \<Rightarrow> nat \<Rightarrow> error + mp_word list" where
  "const_time_lookup output vec idx =
     lookup_loop vec 0 idx (replicate (length output) 0)"

section \<open>XMSS parameters\<close>

text \<open>
  The enumeration \<^verbatim>\<open>xmss_algorithm_t\<close>: the six SHA-2 identifiers the constructor
  handles and the six SHAKE identifiers whose cases are commented out in the source.
\<close>
datatype xmss_algorithm_t =
    XMSS_SHA2_256_W16_H10 | XMSS_SHA2_256_W16_H16 | XMSS_SHA2_256_W16_H20
  | XMSS_SHA2_512_W16_H10 | XMSS_SHA2_512_W16_H16 | XMSS_SHA2_512_W16_H20
  | XMSS_SHAKE128_W16_H10 | XMSS_SHAKE128_W16_H16 | XMSS_SHAKE128_W16_H20
  | XMSS_SHAKE256_W16_H10 | XMSS_SHAKE256_W16_H16 | XMSS_SHAKE256_W16_H20

datatype ots_algorithm_t = WOTSP_SHA2_256_W16 | WOTSP_SHA2_512_W16

record XMSS_Parameters =
  m_oid :: xmss_algorithm_t
  m_element_size :: nat
  m_w :: nat
  m_len :: nat
  m_tree_height :: nat
  m_name :: string
  m_hash_name :: string
  m_strength :: nat
  m_wots_oid :: ots_algorithm_t

text \<open>The static table \<^verbatim>\<open>m_oid_name_lut\<close>, in the order of the source.\<close>
definition m_oid_name_lut :: "(string \<times> xmss_algorithm_t) list" where
  "m_oid_name_lut =
     [(''XMSS_SHA2-256_W16_H10'', XMSS_SHA2_256_W16_H10),
      (''XMSS_SHA2-256_W16_H16'', XMSS_SHA2_256_W16_H16),
      (''XMSS_SHA2-256_W16_H20'', XMSS_SHA2_256_W16_H20),
      (''XMSS_SHA2-512_W16_H10'', XMSS_SHA2_512_W16_H10),
      (''XMSS_SHA2-512_W16_H16'', XMSS_SHA2_512_W16_H16),
      (''XMSS_SHA2-512_W16_H20'', XMSS_SHA2_512_W16_H20)]"

text \<open>\<^verbatim>\<open>std::map::at\<close>: the mapped value, or \<^verbatim>\<open>std::out_of_range\<close> for a missing key.\<close>
definition lut_at :: "string \<Rightarrow> error + xmss_algorithm_t" where
  "lut_at algo_name =
     (case map_of m_oid_name_lut algo_name of
        None \<Rightarrow> Inl Std_out_of_range
      | Some oid \<Rightarrow> Inr oid)"

definition mk_params ::
  "xmss_algorithm_t \<Rightarrow> nat \<Rightarrow> nat \<Rightarrow> nat \<Rightarrow> nat \<Rightarrow> string \<Rightarrow> string \<Rightarrow> nat \<Rightarrow> ots_algorithm_t
     \<Rightarrow> XMSS_Parameters" where
  "mk_params oid es w ln th nm hn st wo =
     \<lparr>m_oid = oid, m_element_size = es, m_w = w, m_len = ln, m_tree_height = th,
      m_name = nm, m_hash_name = hn, m_strength = st, m_wots_oid = wo\<rparr>"

text \<open>\<^verbatim>\<open>XMSS_Parameters::XMSS_Parameters(xmss_algorithm_t oid)\<close>: the \<^verbatim>\<open>switch\<close>,
  case by case; every other identifier reaches \<^verbatim>\<open>default\<close>.\<close>
fun XMSS_Parameters_of_oid :: "xmss_algorithm_t \<Rightarrow> error + XMSS_Parameters" where
  "XMSS_Parameters_of_oid XMSS_SHA2_256_W16_H10 =
     Inr (mk_params XMSS_SHA2_256_W16_H10 32 16 67 10 ''XMSS_SHA2-256_W16_H10'' ''SHA-256'' 256
            WOTSP_SHA2_256_W16)"
| "XMSS_Parameters_of_oid XMSS_SHA2_256_W16_H16 =
     Inr (mk_params XMSS_SHA2_256_W16_H16 32 16 67 16 ''XMSS_SHA2-256_W16_H16'' ''SHA-256'' 256
            WOTSP_SHA2_256_W16)"
| "XMSS_Parameters_of_oid XMSS_SHA2_256_W16_H20 =
     Inr (mk_params XMSS_SHA2_256_W16_H20 32 16 67 20 ''XMSS_SHA2-256_W16_H20'' ''SHA-256'' 256
            WOTSP_SHA2_256_W16)"
| "XMSS_Parameters_of_oid XMSS_SHA2_512_W16_H10 =
     Inr (mk_params XMSS_SHA2_512_W16_H10 64 16 131 10 ''XMSS_SHA2-512_W16_H10'' ''SHA-512'' 512
            WOTSP_SHA2_512_W16)"
| "XMSS_Parameters_of_oid XMSS_SHA2_512_W16_H16 =
     Inr (mk_params XMSS_SHA2_512_W16_H16 64 16 131 16 ''XMSS_SHA2-512_W16_H16'' ''SHA-512'' 512
            WOTSP_SHA2_512_W16)"
| "XMSS_Parameters_of_oid XMSS_SHA2_512_W16_H20 =
     Inr (mk_params XMSS_SHA2_512_W16_H20 64 16 131 20 ''XMSS_SHA2-512_W16_H20'' ''SHA-512'' 512
            WOTSP_SHA2_512_W16)"
| "XMSS_Parameters_of_oid _ = Inl Unsupported_Argument"

text \<open>\<^verbatim>\<open>XMSS_Parameters::XMSS_Parameters(const std::string& algo_name)\<close>: the lookup
  happens first, in the delegating constructor call.\<close>
definition XMSS_Parameters_of_name :: "string \<Rightarrow> error + XMSS_Parameters" where
  "XMSS_Parameters_of_name algo_name =
     (case lut_at algo_name of
        Inl e \<Rightarrow> Inl e
      | Inr oid \<Rightarrow> XMSS_Parameters_of_oid oid)"

section \<open>Ed448\<close>

subsection \<open>The field GF(p) and the scalars modulo L\<close>

text \<open>
  Modelled from the spec: the classes \<^verbatim>\<open>Gf448Elem\<close> and \<^verbatim>\<open>Scalar448\<close> are declared
  in headers that are not part of the sources at hand.  A \<^verbatim>\<open>Gf448Elem\<close> is a field
  element modulo \<open>p = 2^448 - 2^224 - 1\<close>, kept here as its canonical representative (a
  natural number below \<open>p\<close>); it has \<open>+\<close>, \<open>-\<close>, \<open>*\<close>, \<^verbatim>\<open>square\<close>, \<^verbatim>\<open>inverse\<close>,
  \<^verbatim>\<open>root\<close> (the \<open>(p - 3) / 4\<close> power), a canonical little-endian byte encoding and the
  check \<^verbatim>\<open>bytes_are_canonical_representation\<close> (the encoded value is below \<open>p\<close>).
  A \<^verbatim>\<open>Scalar448\<close> is an integer modulo the group order \<open>L\<close>, built from little-endian
  bytes by reduction modulo \<open>L\<close>, with \<^verbatim>\<open>get_bit\<close>, \<open>+\<close>, \<open>*\<close> and
  \<^verbatim>\<open>bytes_are_reduced\<close> (the encoded value is below \<open>L\<close>).
\<close>

definition p448 :: nat where
  "p448 = 2 ^ 448 - 2 ^ 224 - 1"

definition L448 :: nat where
  "L448 = 2 ^ 446 - 13818066809895115352007386748515426880336692474882178609894547503885"

type_synonym Gf448Elem = nat
type_synonym Scalar448 = nat

text \<open>Little-endian bytes to a number and back (\<^verbatim>\<open>load_le\<close> / \<^verbatim>\<open>store_le\<close>).\<close>
fun le_nat :: "u8 list \<Rightarrow> nat" where
  "le_nat [] = 0"
| "le_nat (b # bs) = unat b + 256 * le_nat bs"

fun nat_le :: "nat \<Rightarrow> nat \<Rightarrow> u8 list" where
  "nat_le 0 v = []"
| "nat_le (Suc n) v = of_nat (v mod 256) # nat_le n (v div 256)"

definition Gf448Elem_of_u64 :: "nat \<Rightarrow> Gf448Elem" where
  "Gf448Elem_of_u64 n = n mod p448"

definition Gf448Elem_of_bytes :: "u8 list \<Rightarrow> Gf448Elem" where
  "Gf448Elem_of_bytes bs = le_nat bs mod p448"

definition bytes_are_canonical_representation :: "u8 list \<Rightarrow> bool" where
  "bytes_are_canonical_representation bs = (le_nat bs < p448)"

definition gf_to_bytes :: "Gf448Elem \<Rightarrow> u8 list" where
  "gf_to_bytes a = nat_le 56 (a mod p448)"

definition gf_add :: "Gf448Elem \<Rightarrow> Gf448Elem \<Rightarrow> Gf448Elem" where
  "gf_add a b = (a + b) mod p448"

definition gf_neg :: "Gf448Elem \<Rightarrow> Gf448Elem" where
  "gf_neg a = (p448 - a mod p448) mod p448"

definition gf_sub :: "Gf448Elem \<Rightarrow> Gf448Elem \<Rightarrow> Gf448Elem" where
  "gf_sub a b = (a + (p448 - b mod p448)) mod p448"

definition gf_mul :: "Gf448Elem \<Rightarrow> Gf448Elem \<Rightarrow> Gf448Elem" where
  "gf_mul a b = (a * b) mod p448"

definition square :: "Gf448Elem \<Rightarrow> Gf448Elem" where
  "square a = gf_mul a a"

text \<open>Powers by repeated squaring, so that the model can be run.\<close>
fun gf_pow :: "Gf448Elem \<Rightarrow> nat \<Rightarrow> Gf448Elem" where
  "gf_pow a e =
     (if e = 0 then 1 mod p448
      else let h = gf_pow a (e div 2); s = gf_mul h h
           in if odd e then gf_mul s a else s)"

declare gf_pow.simps [simp del]

definition root :: "Gf448Elem \<Rightarrow> Gf448Elem" where
  "root a = gf_pow a ((p448 - 3) div 4)"

definition inverse_gf :: "Gf448Elem \<Rightarrow> Gf448Elem" where
  "inverse_gf a = gf_pow a (p448 - 2)"

definition gf_div :: "Gf448Elem \<Rightarrow> Gf448Elem \<Rightarrow> Gf448Elem" where
  "gf_div a b = gf_mul a (inverse_gf b)"

definition is_zero :: "Gf448Elem \<Rightarrow> bool" where
  "is_zero a = (a mod p448 = 0)"

definition is_odd :: "Gf448Elem \<Rightarrow> bool" where
  "is_odd a = odd (a mod p448)"

definition gf_ct_cond_assign :: "Gf448Elem \<Rightarrow> bool \<Rightarrow> Gf448Elem \<Rightarrow> Gf448Elem" where
  "gf_ct_cond_assign this cond other = (if cond then other else this)"

definition Scalar448_of_bytes :: "u8 list \<Rightarrow> Scalar448" where
  "Scalar448_of_bytes bs = le_nat bs mod L448"

definition bytes_are_reduced :: "u8 list \<Rightarrow> bool" where
  "bytes_are_reduced bs = (le_nat bs < L448)"

definition get_bit :: "Scalar448 \<Rightarrow> nat \<Rightarrow> bool" where
  "get_bit s i = odd (s div 2 ^ i)"

definition sc_add :: "Scalar448 \<Rightarrow> Scalar448 \<Rightarrow> Scalar448" where
  "sc_add a b = (a + b) mod L448"

definition sc_mul :: "Scalar448 \<Rightarrow> Scalar448 \<Rightarrow> Scalar448" where
  "sc_mul a b = (a * b) mod L448"

definition sc_to_bytes :: "Scalar448 \<Rightarrow> u8 list" where
  "sc_to_bytes s = nat_le 57 s"

subsection \<open>SHAKE-256\<close>

text \<open>
  The extendable-output function is a parameter of the model: \<open>X input i\<close> is byte \<open>i\<close> of
  the output stream of SHAKE-256 after absorbing \<open>input\<close>.  Successive calls of
  \<^verbatim>\<open>output\<close> read successive stretches of that stream.
\<close>
type_synonym xof = "u8 list \<Rightarrow> nat \<Rightarrow> u8"

definition xof_output :: "xof \<Rightarrow> u8 list \<Rightarrow> nat \<Rightarrow> nat \<Rightarrow> u8 list" where
  "xof_output X input off n = map (X input) [off..<off + n]"

subsection \<open>\<^verbatim>\<open>ed448_internal.cpp\<close>\<close>

definition ED448_LEN :: nat where
  "ED448_LEN = 57"

definition MINUS_D :: nat where
  "MINUS_D = 39081"

text \<open>\<^verbatim>\<open>dom4\<close>: the argument check raises \<^verbatim>\<open>Invalid_Argument\<close>.\<close>
definition dom4 :: "u8 \<Rightarrow> u8 list \<Rightarrow> error + u8 list" where
  "dom4 x y =
     (if \<not> (length y < 256) then Inl Invalid_Argument
      else Inr (map (\<lambda>c. of_nat (of_char c)) ''SigEd448'' @ [x] @ [of_nat (length y)] @ y))"

text \<open>\<^verbatim>\<open>shake(f, context, xs...)\<close>: 114 bytes of SHAKE-256 over \<open>dom4(f, context) || xs\<close>.\<close>
definition shake :: "xof \<Rightarrow> bool \<Rightarrow> u8 list \<Rightarrow> u8 list list \<Rightarrow> error + u8 list" where
  "shake X f context xs =
     (case dom4 (if f then 1 else 0) context of
        Inl e \<Rightarrow> Inl e
      | Inr dom4_bytes \<Rightarrow> Inr (xof_output X (dom4_bytes @ concat xs) 0 (2 * ED448_LEN)))"

definition split :: "u8 list \<Rightarrow> u8 list \<times> u8 list" where
  "split arr = (take 57 arr, take 57 (drop 57 arr))"

text \<open>\<^verbatim>\<open>scalar_from_xof\<close>: the first 57 output bytes, pruned.\<close>
definition scalar_from_xof :: "xof \<Rightarrow> u8 list \<Rightarrow> Scalar448" where
  "scalar_from_xof X input =
     (let raw_s = xof_output X input 0 ED448_LEN;
          raw_s = raw_s[0 := (raw_s ! 0) AND 0xFC];
          raw_s = raw_s[55 := (raw_s ! 55) OR 0x80];
          raw_s = raw_s[56 := 0]
      in Scalar448_of_bytes raw_s)"

record Ed448Point =
  m_x :: Gf448Elem
  m_y :: Gf448Elem
  m_z :: Gf448Elem

definition Ed448Point_xy :: "Gf448Elem \<Rightarrow> Gf448Elem \<Rightarrow> Ed448Point" where
  "Ed448Point_xy x y = \<lparr>m_x = x, m_y = y, m_z = 1\<rparr>"

definition Ed448Point_xyz :: "Gf448Elem \<Rightarrow> Gf448Elem \<Rightarrow> Gf448Elem \<Rightarrow> Ed448Point" where
  "Ed448Point_xyz x y z = \<lparr>m_x = x, m_y = y, m_z = z\<rparr>"

text \<open>
  Modelled from the spec: the accessors \<^verbatim>\<open>x()\<close> and \<^verbatim>\<open>y()\<close> of the header, the
  affine coordinates \<open>X / Z\<close> and \<open>Y / Z\<close> of the projective triple.
\<close>
definition pt_x :: "Ed448Point \<Rightarrow> Gf448Elem" where
  "pt_x P = gf_div (m_x P) (m_z P)"

definition pt_y :: "Ed448Point \<Rightarrow> Gf448Elem" where
  "pt_y P = gf_div (m_y P) (m_z P)"

text \<open>The candidate root of \<^verbatim>\<open>Ed448Point::decode\<close> (the local \<^verbatim>\<open>maybe_x\<close>), as the
  source computes it from \<open>y\<close>.\<close>
definition decode_u :: "Gf448Elem \<Rightarrow> Gf448Elem" where
  "decode_u y = gf_sub (square y) 1"

definition decode_v :: "Gf448Elem \<Rightarrow> Gf448Elem" where
  "decode_v y = (let d = gf_neg (Gf448Elem_of_u64 MINUS_D) in gf_sub (gf_mul d (square y)) 1)"

definition decode_maybe_x :: "Gf448Elem \<Rightarrow> Gf448Elem" where
  "decode_maybe_x y =
     (let u = decode_u y;
          v = decode_v y
      in gf_mul (gf_mul (gf_mul u (square u)) v)
                (root (gf_mul (gf_mul (gf_mul (square (square u)) u) (square v)) v)))"

definition decode :: "u8 list \<Rightarrow> error + Ed448Point" where
  "decode enc =
     (if (last enc AND 0x7F) \<noteq> 0 then Inl Decoding_Error
      else
        let x_distinguisher = (last enc \<noteq> 0);
            y_data = take 56 enc
        in if \<not> bytes_are_canonical_representation y_data then Inl Decoding_Error
           else
             let y = Gf448Elem_of_bytes y_data;
                 u = decode_u y;
                 v = decode_v y;
                 maybe_x = decode_maybe_x y
             in if gf_mul v (square maybe_x) \<noteq> u then Inl Decoding_Error
                else if is_zero maybe_x \<and> x_distinguisher then Inl Decoding_Error
                else
                  let maybe_x_parity = is_odd maybe_x;
                      x_data = (if maybe_x_parity = x_distinguisher then maybe_x
                                else gf_neg maybe_x)
                  in Inr (Ed448Point_xy x_data y))"

definition base_point :: Ed448Point where
  "base_point = Ed448Point_xy
     (le_nat (concat (map (\<lambda>w. nat_le 8 w)
        [0x2626a82bc70cc05e, 0x433b80e18b00938e, 0x12ae1af72ab66511, 0xea6de324a3d3a464,
         0x9e146570470f1767, 0x221d15a622bf36da, 0x4f1970c66bed0ded])))
     (le_nat (concat (map (\<lambda>w. nat_le 8 w)
        [0x9808795bf230fa14, 0xfdbd132c4ed7c8ad, 0x3ad3ff1ce67c39c4, 0x87789c1e05a0c2d7,
         0x4bea73736ca39840, 0x8876203756c9c762, 0x693f46716eb6bc24])))"

definition encode :: "Ed448Point \<Rightarrow> u8 list" where
  "encode P = gf_to_bytes (pt_y P) @ [push_bit 7 (if is_odd (pt_x P) then 1 else 0)]"

definition pt_add :: "Ed448Point \<Rightarrow> Ed448Point \<Rightarrow> Ed448Point" where
  "pt_add P other =
     (let A = gf_mul (m_z P) (m_z other);
          B = square A;
          C = gf_mul (m_x P) (m_x other);
          D = gf_mul (m_y P) (m_y other);
          E = gf_mul (gf_mul (gf_neg (Gf448Elem_of_u64 MINUS_D)) C) D;
          F = gf_sub B E;
          G = gf_add B E;
          H = gf_mul (gf_add (m_x P) (m_y P)) (gf_add (m_x other) (m_y other));
          X3 = gf_mul (gf_mul A F) (gf_sub (gf_sub H C) D);
          Y3 = gf_mul (gf_mul A G) (gf_sub D C);
          Z3 = gf_mul F G
      in Ed448Point_xyz X3 Y3 Z3)"

definition double_point :: "Ed448Point \<Rightarrow> Ed448Point" where
  "double_point P =
     (let B = square (gf_add (m_x P) (m_y P));
          C = square (m_x P);
          D = square (m_y P);
          E = gf_add C D;
          H = square (m_z P);
          J = gf_sub E (gf_add H H);
          X3 = gf_mul (gf_sub B E) J;
          Y3 = gf_mul E (gf_sub C D);
          Z3 = gf_mul E J
      in Ed448Point_xyz X3 Y3 Z3)"

definition ct_conditional_assign :: "Ed448Point \<Rightarrow> bool \<Rightarrow> Ed448Point \<Rightarrow> Ed448Point" where
  "ct_conditional_assign P cond other =
     \<lparr>m_x = gf_ct_cond_assign (m_x P) cond (m_x other),
      m_y = gf_ct_cond_assign (m_y P) cond (m_y other),
      m_z = gf_ct_cond_assign (m_z P) cond (m_z other)\<rparr>"

text \<open>\<^verbatim>\<open>scalar_mul\<close>: the loop runs over the bit positions \<open>445, 444, \<dots>, 0\<close>.\<close>
definition scalar_mul :: "Ed448Point \<Rightarrow> Scalar448 \<Rightarrow> Ed448Point" where
  "scalar_mul P s =
     foldl (\<lambda>res i.
              let res = double_point res;
                  add_sum = pt_add res P
              in ct_conditional_assign res (get_bit s i) add_sum)
           (Ed448Point_xy 0 1) (rev [0..<446])"

definition pt_eq :: "Ed448Point \<Rightarrow> Ed448Point \<Rightarrow> bool" where
  "pt_eq P other = (pt_x P = pt_x other \<and> pt_y P = pt_y other)"

definition create_pk_from_sk :: "xof \<Rightarrow> u8 list \<Rightarrow> u8 list" where
  "create_pk_from_sk X sk =
     (let s = scalar_from_xof X sk in encode (scalar_mul base_point s))"

definition sign_message ::
  "xof \<Rightarrow> u8 list \<Rightarrow> u8 list \<Rightarrow> bool \<Rightarrow> u8 list \<Rightarrow> u8 list \<Rightarrow> error + u8 list" where
  "sign_message X sk pk pgflag context msg =
     (let s = scalar_from_xof X sk;
          prefix = xof_output X sk ED448_LEN ED448_LEN
      in case shake X pgflag context [prefix, msg] of
           Inl e \<Rightarrow> Inl e
         | Inr r_bytes \<Rightarrow>
             let r = Scalar448_of_bytes r_bytes;
                 big_r = encode (scalar_mul base_point r)
             in case shake X pgflag context [big_r, pk, msg] of
                  Inl e \<Rightarrow> Inl e
                | Inr k_bytes \<Rightarrow>
                    let k = Scalar448_of_bytes k_bytes;
                        big_s = sc_add r (sc_mul k s);
                        sig = big_r @ sc_to_bytes big_s
                    in if length sig \<noteq> 2 * ED448_LEN then Inl Assertion_Failure
                       else Inr sig)"

definition verify_signature ::
  "xof \<Rightarrow> u8 list \<Rightarrow> bool \<Rightarrow> u8 list \<Rightarrow> u8 list \<Rightarrow> u8 list \<Rightarrow> error + bool" where
  "verify_signature X pk phflag context sig msg =
     (if length sig \<noteq> 2 * ED448_LEN then Inl Decoding_Error
      else
        let (big_r_bytes, big_s_bytes) = split sig
        in case decode big_r_bytes of
             Inl e \<Rightarrow> Inl e
           | Inr big_r \<Rightarrow>
               if \<not> bytes_are_reduced big_s_bytes then Inl Decoding_Error
               else
                 let big_s = Scalar448_of_bytes big_s_bytes
                 in case shake X phflag context [big_r_bytes, pk, msg] of
                      Inl e \<Rightarrow> Inl e
                    | Inr k_bytes \<Rightarrow>
                        let k = Scalar448_of_bytes k_bytes
                        in case decode pk of
                             Inl e \<Rightarrow> Inl e
                           | Inr A \<Rightarrow>
                               Inr (pt_eq (scalar_mul base_point big_s)
                                          (pt_add big_r (scalar_mul A k))))"

text \<open>
  The candidate root as the specification words it, for comparison with
  \<open>decode_maybe_x\<close>: \<open>x = (u v) (u^5 v^3)^((p-3)/4)\<close>.
\<close>
definition spec_candidate_x :: "Gf448Elem \<Rightarrow> Gf448Elem" where
  "spec_candidate_x y =
     (let u = decode_u y;
          v = decode_v y
      in gf_mul (gf_mul u v)
                (gf_pow (gf_mul (gf_pow u 5) (gf_pow v 3)) ((p448 - 3) div 4)))"

section \<open>AES\<close>

subsection \<open>Word helpers\<close>

text \<open>
  Modelled from the spec: the helpers of \<^verbatim>\<open>loadstor.h\<close>, \<^verbatim>\<open>rotate.h\<close> and
  \<^verbatim>\<open>bit_ops.h\<close> are not part of the sources at hand.  The state is loaded big-endian:
  \<^verbatim>\<open>get_byte(0, w)\<close> is the most significant byte of \<open>w\<close>, \<^verbatim>\<open>make_uint32(i0, i1, i2, i3)\<close>
  has \<open>i0\<close> as its most significant byte, \<^verbatim>\<open>load_be\<close> and \<^verbatim>\<open>store_be\<close> read and write
  four bytes in that order, \<^verbatim>\<open>rotr\<close> and \<^verbatim>\<open>rotl\<close> rotate, and
  \<^verbatim>\<open>bit_permute_step\<close> is the delta swap.
\<close>

definition get_byte :: "nat \<Rightarrow> u32 \<Rightarrow> u8" where
  "get_byte byte_num input = ucast (drop_bit (8 * (3 - byte_num)) input)"

definition make_uint32 :: "u8 \<Rightarrow> u8 \<Rightarrow> u8 \<Rightarrow> u8 \<Rightarrow> u32" where
  "make_uint32 i0 i1 i2 i3 =
     push_bit 24 (ucast i0) OR push_bit 16 (ucast i1) OR push_bit 8 (ucast i2) OR ucast i3"

definition rotr :: "nat \<Rightarrow> u32 \<Rightarrow> u32" where
  "rotr n input = word_rotr n input"

definition rotl :: "nat \<Rightarrow> u32 \<Rightarrow> u32" where
  "rotl n input = word_rotl n input"

text \<open>\<^verbatim>\<open>load_be<uint32_t>(in, off)\<close>: the \<open>off\<close>-th big-endian word of a byte array.\<close>
definition load_be :: "u8 list \<Rightarrow> nat \<Rightarrow> u32" where
  "load_be input off =
     make_uint32 (input ! (4 * off)) (input ! (4 * off + 1)) (input ! (4 * off + 2))
                 (input ! (4 * off + 3))"

definition store_be :: "u32 \<Rightarrow> u8 list" where
  "store_be w = [get_byte 0 w, get_byte 1 w, get_byte 2 w, get_byte 3 w]"

definition bit_permute_step :: "u32 \<Rightarrow> u32 \<Rightarrow> nat \<Rightarrow> u32" where
  "bit_permute_step x msk shift =
     (let swap = (drop_bit shift x XOR x) AND msk
      in (x XOR swap) XOR push_bit shift swap)"

subsection \<open>Tables\<close>

definition SE :: "u8 list" where
  "SE = [
      0x63, 0x7C, 0x77, 0x7B, 0xF2, 0x6B, 0x6F, 0xC5, 0x30, 0x01, 0x67, 0x2B,
      0xFE, 0xD7, 0xAB, 0x76, 0xCA, 0x82, 0xC9, 0x7D, 0xFA, 0x59, 0x47, 0xF0,
      0xAD, 0xD4, 0xA2, 0xAF, 0x9C, 0xA4, 0x72, 0xC0, 0xB7, 0xFD, 0x93, 0x26,
      0x36, 0x3F, 0xF7, 0xCC, 0x34, 0xA5, 0xE5, 0xF1, 0x71, 0xD8, 0x31, 0x15,
      0x04, 0xC7, 0x23, 0xC3, 0x18, 0x96, 0x05, 0x9A, 0x07, 0x12, 0x80, 0xE2,
      0xEB, 0x27, 0xB2, 0x75, 0x09, 0x83, 0x2C, 0x1A, 0x1B, 0x6E, 0x5A, 0xA0,
      0x52, 0x3B, 0xD6, 0xB3, 0x29, 0xE3, 0x2F, 0x84, 0x53, 0xD1, 0x00, 0xED,
      0x20, 0xFC, 0xB1, 0x5B, 0x6A, 0xCB, 0xBE, 0x39, 0x4A, 0x4C, 0x58, 0xCF,
      0xD0, 0xEF, 0xAA, 0xFB, 0x43, 0x4D, 0x33, 0x85, 0x45, 0xF9, 0x02, 0x7F,
      0x50, 0x3C, 0x9F, 0xA8, 0x51, 0xA3, 0x40, 0x8F, 0x92, 0x9D, 0x38, 0xF5,
      0xBC, 0xB6, 0xDA, 0x21, 0x10, 0xFF, 0xF3, 0xD2, 0xCD, 0x0C, 0x13, 0xEC,
      0x5F, 0x97, 0x44, 0x17, 0xC4, 0xA7, 0x7E, 0x3D, 0x64, 0x5D, 0x19, 0x73,
      0x60, 0x81, 0x4F, 0xDC, 0x22, 0x2A, 0x90, 0x88, 0x46, 0xEE, 0xB8, 0x14,
      0xDE, 0x5E, 0x0B, 0xDB, 0xE0, 0x32, 0x3A, 0x0A, 0x49, 0x06, 0x24, 0x5C,
      0xC2, 0xD3, 0xAC, 0x62, 0x91, 0x95, 0xE4, 0x79, 0xE7, 0xC8, 0x37, 0x6D,
      0x8D, 0xD5, 0x4E, 0xA9, 0x6C, 0x56, 0xF4, 0xEA, 0x65, 0x7A, 0xAE, 0x08,
      0xBA, 0x78, 0x25, 0x2E, 0x1C, 0xA6, 0xB4, 0xC6, 0xE8, 0xDD, 0x74, 0x1F,
      0x4B, 0xBD, 0x8B, 0x8A, 0x70, 0x3E, 0xB5, 0x66, 0x48, 0x03, 0xF6, 0x0E,
      0x61, 0x35, 0x57, 0xB9, 0x86, 0xC1, 0x1D, 0x9E, 0xE1, 0xF8, 0x98, 0x11,
      0x69, 0xD9, 0x8E, 0x94, 0x9B, 0x1E, 0x87, 0xE9, 0xCE, 0x55, 0x28, 0xDF,
      0x8C, 0xA1, 0x89, 0x0D, 0xBF, 0xE6, 0x42, 0x68, 0x41, 0x99, 0x2D, 0x0F,
      0xB0, 0x54, 0xBB, 0x16]"

definition SD :: "u8 list" where
  "SD = [
      0x52, 0x09, 0x6A, 0xD5, 0x30, 0x36, 0xA5, 0x38, 0xBF, 0x40, 0xA3, 0x9E,
      0x81, 0xF3, 0xD7, 0xFB, 0x7C, 0xE3, 0x39, 0x82, 0x9B, 0x2F, 0xFF, 0x87,
      0x34, 0x8E, 0x43, 0x44, 0xC4, 0xDE, 0xE9, 0xCB, 0x54, 0x7B, 0x94, 0x32,
      0xA6, 0xC2, 0x23, 0x3D, 0xEE, 0x4C, 0x95, 0x0B, 0x42, 0xFA, 0xC3, 0x4E,
      0x08, 0x2E, 0xA1, 0x66, 0x28, 0xD9, 0x24, 0xB2, 0x76, 0x5B, 0xA2, 0x49,
      0x6D, 0x8B, 0xD1, 0x25, 0x72, 0xF8, 0xF6, 0x64, 0x86, 0x68, 0x98, 0x16,
      0xD4, 0xA4, 0x5C, 0xCC, 0x5D, 0x65, 0xB6, 0x92, 0x6C, 0x70, 0x48, 0x50,
      0xFD, 0xED, 0xB9, 0xDA, 0x5E, 0x15, 0x46, 0x57, 0xA7, 0x8D, 0x9D, 0x84,
      0x90, 0xD8, 0xAB, 0x00, 0x8C, 0xBC, 0xD3, 0x0A, 0xF7, 0xE4, 0x58, 0x05,
      0xB8, 0xB3, 0x45, 0x06, 0xD0, 0x2C, 0x1E, 0x8F, 0xCA, 0x3F, 0x0F, 0x02,
      0xC1, 0xAF, 0xBD, 0x03, 0x01, 0x13, 0x8A, 0x6B, 0x3A, 0x91, 0x11, 0x41,
      0x4F, 0x67, 0xDC, 0xEA, 0x97, 0xF2, 0xCF, 0xCE, 0xF0, 0xB4, 0xE6, 0x73,
      0x96, 0xAC, 0x74, 0x22, 0xE7, 0xAD, 0x35, 0x85, 0xE2, 0xF9, 0x37, 0xE8,
      0x1C, 0x75, 0xDF, 0x6E, 0x47, 0xF1, 0x1A, 0x71, 0x1D, 0x29, 0xC5, 0x89,
      0x6F, 0xB7, 0x62, 0x0E, 0xAA, 0x18, 0xBE, 0x1B, 0xFC, 0x56, 0x3E, 0x4B,
      0xC6, 0xD2, 0x79, 0x20, 0x9A, 0xDB, 0xC0, 0xFE, 0x78, 0xCD, 0x5A, 0xF4,
      0x1F, 0xDD, 0xA8, 0x33, 0x88, 0x07, 0xC7, 0x31, 0xB1, 0x12, 0x10, 0x59,
      0x27, 0x80, 0xEC, 0x5F, 0x60, 0x51, 0x7F, 0xA9, 0x19, 0xB5, 0x4A, 0x0D,
      0x2D, 0xE5, 0x7A, 0x9F, 0x93, 0xC9, 0x9C, 0xEF, 0xA0, 0xE0, 0x3B, 0x4D,
      0xAE, 0x2A, 0xF5, 0xB0, 0xC8, 0xEB, 0xBB, 0x3C, 0x83, 0x53, 0x99, 0x61,
      0x17, 0x2B, 0x04, 0x7E, 0xBA, 0x77, 0xD6, 0x26, 0xE1, 0x69, 0x14, 0x63,
      0x55, 0x21, 0x0C, 0x7D]"

definition xtime :: "u8 \<Rightarrow> u8" where
  "xtime s = push_bit 1 s XOR (drop_bit 7 s * 0x1B)"

definition xtime3 :: "u8 \<Rightarrow> u8" where
  "xtime3 s = xtime s XOR s"

definition InvMixColumn :: "u8 \<Rightarrow> u32" where
  "InvMixColumn s1 =
     (let s2 = xtime s1;
          s4 = xtime s2;
          s8 = xtime s4;
          s9 = s8 XOR s1;
          s11 = s9 XOR s2;
          s13 = s9 XOR s4;
          s14 = s8 XOR s4 XOR s2
      in make_uint32 s14 s9 s13 s11)"

text \<open>The bit-sliced S-box circuit \<^verbatim>\<open>AES_SBOX\<close>, gate by gate; \<open>V\<close> has eight words.\<close>
definition AES_SBOX :: "u32 list \<Rightarrow> u32 list" where
  "AES_SBOX V =
     (let I0 = V ! 0;
          I1 = V ! 1;
          I2 = V ! 2;
          I3 = V ! 3;
          I4 = V ! 4;
          I5 = V ! 5;
          I6 = V ! 6;
          I7 = V ! 7;
          T1 = I0 XOR I3;
          T2 = I0 XOR I5;
          T3 = I0 XOR I6;
          T4 = I3 XOR I5;
          T5 = I4 XOR I6;
          T6 = T1 XOR T5;
          T7 = I1 XOR I2;
          T8 = I7 XOR T6;
          T9 = I7 XOR T7;
          T10 = T6 XOR T7;
          T11 = I1 XOR I5;
          T12 = I2 XOR I5;
          T13 = T3 XOR T4;
          T14 = T6 XOR T11;
          T15 = T5 XOR T11;
          T16 = T5 XOR T12;
          T17 = T9 XOR T16;
          T18 = I3 XOR I7;
          T19 = T7 XOR T18;
          T20 = T1 XOR T19;
          T21 = I6 XOR I7;
          T22 = T7 XOR T21;
          T23 = T2 XOR T22;
          T24 = T2 XOR T10;
          T25 = T20 XOR T17;
          T26 = T3 XOR T16;
          T27 = T1 XOR T12;
          D = I7;
          M1 = T13 AND T6;
          M2 = T23 AND T8;
          M3 = T14 XOR M1;
          M4 = T19 AND D;
          M5 = M4 XOR M1;
          M6 = T3 AND T16;
          M7 = T22 AND T9;
          M8 = T26 XOR M6;
          M9 = T20 AND T17;
          M10 = M9 XOR M6;
          M11 = T1 AND T15;
          M12 = T4 AND T27;
          M13 = M12 XOR M11;
          M14 = T2 AND T10;
          M15 = M14 XOR M11;
          M16 = M3 XOR M2;
          M17 = M5 XOR T24;
          M18 = M8 XOR M7;
          M19 = M10 XOR M15;
          M20 = M16 XOR M13;
          M21 = M17 XOR M15;
          M22 = M18 XOR M13;
          M23 = M19 XOR T25;
          M24 = M22 XOR M23;
          M25 = M22 AND M20;
          M26 = M21 XOR M25;
          M27 = M20 XOR M21;
          M28 = M23 XOR M25;
          M29 = M28 AND M27;
          M30 = M26 AND M24;
          M31 = M20 AND M23;
          M32 = M27 AND M31;
          M33 = M27 XOR M25;
          M34 = M21 AND M22;
          M35 = M24 AND M34;
          M36 = M24 XOR M25;
          M37 = M21 XOR M29;
          M38 = M32 XOR M33;
          M39 = M23 XOR M30;
          M40 = M35 XOR M36;
          M41 = M38 XOR M40;
          M42 = M37 XOR M39;
          M43 = M37 XOR M38;
          M44 = M39 XOR M40;
          M45 = M42 XOR M41;
          M46 = M44 AND T6;
          M47 = M40 AND T8;
          M48 = M39 AND D;
          M49 = M43 AND T16;
          M50 = M38 AND T9;
          M51 = M37 AND T17;
          M52 = M42 AND T15;
          M53 = M45 AND T27;
          M54 = M41 AND T10;
          M55 = M44 AND T13;
          M56 = M40 AND T23;
          M57 = M39 AND T19;
          M58 = M43 AND T3;
          M59 = M38 AND T22;
          M60 = M37 AND T20;
          M61 = M42 AND T1;
          M62 = M45 AND T4;
          M63 = M41 AND T2;
          L0 = M61 XOR M62;
          L1 = M50 XOR M56;
          L2 = M46 XOR M48;
          L3 = M47 XOR M55;
          L4 = M54 XOR M58;
          L5 = M49 XOR M61;
          L6 = M62 XOR L5;
          L7 = M46 XOR L3;
          L8 = M51 XOR M59;
          L9 = M52 XOR M53;
          L10 = M53 XOR L4;
          L11 = M60 XOR L2;
          L12 = M48 XOR M51;
          L13 = M50 XOR L0;
          L14 = M52 XOR M61;
          L15 = M55 XOR L1;
          L16 = M56 XOR L0;
          L17 = M57 XOR L1;
          L18 = M58 XOR L8;
          L19 = M63 XOR L4;
          L20 = L0 XOR L1;
          L21 = L1 XOR L7;
          L22 = L3 XOR L12;
          L23 = L18 XOR L2;
          L24 = L15 XOR L9;
          L25 = L6 XOR L10;
          L26 = L7 XOR L9;
          L27 = L8 XOR L10;
          L28 = L11 XOR L14;
          L29 = L11 XOR L17;
          S0 = L6 XOR L24;
          S1 = NOT (L16 XOR L26);
          S2 = NOT (L19 XOR L28);
          S3 = L6 XOR L21;
          S4 = L20 XOR L22;
          S5 = L25 XOR L29;
          S6 = NOT (L13 XOR L27);
          S7 = NOT (L6 XOR L23)
      in [S0, S1, S2, S3, S4, S5, S6, S7])"

text \<open>\<^verbatim>\<open>SE_word\<close>: the S-box on each byte of a word, through the bit-sliced circuit.\<close>
definition SE_word :: "u32 \<Rightarrow> u32" where
  "SE_word x0 =
     (let x = bit_permute_step x0 0x00aa00aa 7;
          x = bit_permute_step x 0x0000cccc 14;
          x = bit_permute_step x 0x00f000f0 4;
          x = bit_permute_step x 0x0000ff00 8;
          I = map (\<lambda>i. drop_bit (28 - 4 * i) x AND 0xF) [0..<8];
          I = AES_SBOX I;
          x = foldl (\<lambda>x i. push_bit 4 x + ((I ! i) AND 0xF)) 0 [0..<8];
          x = bit_permute_step x 0x0a0a0a0a 3;
          x = bit_permute_step x 0x00cc00cc 6;
          x = bit_permute_step x 0x0000f0f0 12;
          x = bit_permute_step x 0x0000ff00 8
      in x)"

text \<open>The T-tables, computed from the S-boxes as the constructors of \<^verbatim>\<open>TE_Table\<close> and
  \<^verbatim>\<open>TD_Table\<close> do.\<close>
definition AES_TE :: "u32 list" where
  "AES_TE = map (\<lambda>i. let s = SE ! i in make_uint32 (xtime s) s s (xtime3 s)) [0..<256]"

definition AES_TD :: "u32 list" where
  "AES_TD = map (\<lambda>i. InvMixColumn (SD ! i)) [0..<256]"

text \<open>The macro \<^verbatim>\<open>AES_T(T, K, V0, V1, V2, V3)\<close>.\<close>
definition AES_T :: "u32 list \<Rightarrow> u32 \<Rightarrow> u32 \<Rightarrow> u32 \<Rightarrow> u32 \<Rightarrow> u32 \<Rightarrow> u32" where
  "AES_T T K V0 V1 V2 V3 =
     K XOR T ! unat (get_byte 0 V0)
       XOR rotr 8 (T ! unat (get_byte 1 V1))
       XOR rotr 16 (T ! unat (get_byte 2 V2))
       XOR rotr 24 (T ! unat (get_byte 3 V3))"

subsection \<open>The cache-line sweep\<close>

text \<open>
  \<^verbatim>\<open>for(size_t i = 0; i < 256; i += step) Z |= T[i];\<close> with the step taken from
  \<^verbatim>\<open>CPUID::cache_line_size()\<close>, a parameter of the model.  With a step of zero the loop
  of the source never ends, and the model returns \<open>None\<close>.
\<close>
partial_function (option) sweep :: "(nat \<Rightarrow> u32) \<Rightarrow> nat \<Rightarrow> nat \<Rightarrow> u32 \<Rightarrow> u32 option" where
  "sweep T step i Z = (if i < 256 then sweep T step (i + step) (Z OR T i) else Some Z)"

declare sweep.simps [code]

definition sweep_TE :: "nat \<Rightarrow> u32 option" where
  "sweep_TE cache_line_size =
     (case sweep (\<lambda>i. AES_TE ! i) (cache_line_size div 4) 0 0 of
        None \<Rightarrow> None
      | Some Z \<Rightarrow> Some (Z AND AES_TE ! 82))"

definition sweep_TD :: "nat \<Rightarrow> u32 option" where
  "sweep_TD cache_line_size =
     (case sweep (\<lambda>i. AES_TD ! i) (cache_line_size div 4) 0 0 of
        None \<Rightarrow> None
      | Some Z \<Rightarrow>
          (case sweep (\<lambda>i. ucast (SD ! i)) cache_line_size 0 Z of
             None \<Rightarrow> None
           | Some Z \<Rightarrow> Some (Z AND AES_TD ! 99)))"

subsection \<open>Encryption and decryption of blocks\<close>

type_synonym aes_state = "u32 \<times> u32 \<times> u32 \<times> u32"

text \<open>The round loop \<^verbatim>\<open>for(size_t r = 2*4; r < EK.size(); r += 2*4)\<close> of
  \<^verbatim>\<open>aes_encrypt_n\<close>: two rounds per iteration.\<close>
function enc_rounds :: "u32 list \<Rightarrow> nat \<Rightarrow> aes_state \<Rightarrow> aes_state" where
  "enc_rounds EK r (B0, B1, B2, B3) =
     (if r < length EK then
        let T0 = AES_T AES_TE (EK ! r) B0 B1 B2 B3;
            T1 = AES_T AES_TE (EK ! (r + 1)) B1 B2 B3 B0;
            T2 = AES_T AES_TE (EK ! (r + 2)) B2 B3 B0 B1;
            T3 = AES_T AES_TE (EK ! (r + 3)) B3 B0 B1 B2;
            B0 = AES_T AES_TE (EK ! (r + 4)) T0 T1 T2 T3;
            B1 = AES_T AES_TE (EK ! (r + 5)) T1 T2 T3 T0;
            B2 = AES_T AES_TE (EK ! (r + 6)) T2 T3 T0 T1;
            B3 = AES_T AES_TE (EK ! (r + 7)) T3 T0 T1 T2
        in enc_rounds EK (r + 8) (B0, B1, B2, B3)
      else (B0, B1, B2, B3))"
  by pat_completeness auto
termination
  by (relation "measure (\<lambda>(EK, r, B). length EK - r)") auto

declare enc_rounds.simps [simp del]

text \<open>One iteration of the block loop of \<^verbatim>\<open>aes_encrypt_n\<close>, for block \<open>i\<close> of the input.\<close>
definition enc_block :: "u32 \<Rightarrow> u32 list \<Rightarrow> u8 list \<Rightarrow> u8 list \<Rightarrow> nat \<Rightarrow> u8 list" where
  "enc_block Z EK ME input i =
     (let T0 = load_be input (4 * i);
          T1 = load_be input (4 * i + 1);
          T2 = load_be input (4 * i + 2);
          T3 = load_be input (4 * i + 3);
          T0 = T0 XOR EK ! 0;
          T1 = T1 XOR EK ! 1;
          T2 = T2 XOR EK ! 2;
          T3 = T3 XOR EK ! 3;
          T0 = T0 XOR Z;
          B0 = AES_T AES_TE (EK ! 4) T0 T1 T2 T3;
          B1 = AES_T AES_TE (EK ! 5) T1 T2 T3 T0;
          B2 = AES_T AES_TE (EK ! 6) T2 T3 T0 T1;
          B3 = AES_T AES_TE (EK ! 7) T3 T0 T1 T2;
          (B0, B1, B2, B3) = enc_rounds EK 8 (B0, B1, B2, B3)
      in [ucast (drop_bit 8 (AES_TE ! unat (get_byte 0 B0))) XOR ME ! 0,
          ucast (drop_bit 8 (AES_TE ! unat (get_byte 1 B1))) XOR ME ! 1,
          ucast (drop_bit 8 (AES_TE ! unat (get_byte 2 B2))) XOR ME ! 2,
          ucast (drop_bit 8 (AES_TE ! unat (get_byte 3 B3))) XOR ME ! 3,
          ucast (drop_bit 8 (AES_TE ! unat (get_byte 0 B1))) XOR ME ! 4,
          ucast (drop_bit 8 (AES_TE ! unat (get_byte 1 B2))) XOR ME ! 5,
          ucast (drop_bit 8 (AES_TE ! unat (get_byte 2 B3))) XOR ME ! 6,
          ucast (drop_bit 8 (AES_TE ! unat (get_byte 3 B0))) XOR ME ! 7,
          ucast (drop_bit 8 (AES_TE ! unat (get_byte 0 B2))) XOR ME ! 8,
          ucast (drop_bit 8 (AES_TE ! unat (get_byte 1 B3))) XOR ME ! 9,
          ucast (drop_bit 8 (AES_TE ! unat (get_byte 2 B0))) XOR ME ! 10,
          ucast (drop_bit 8 (AES_TE ! unat (get_byte 3 B1))) XOR ME ! 11,
          ucast (drop_bit 8 (AES_TE ! unat (get_byte 0 B3))) XOR ME ! 12,
          ucast (drop_bit 8 (AES_TE ! unat (get_byte 1 B0))) XOR ME ! 13,
          ucast (drop_bit 8 (AES_TE ! unat (get_byte 2 B1))) XOR ME ! 14,
          ucast (drop_bit 8 (AES_TE ! unat (get_byte 3 B2))) XOR ME ! 15])"

text \<open>The block loop, with the masked accumulator \<open>Z\<close> as a parameter.\<close>
definition enc_blocks :: "u32 \<Rightarrow> u8 list \<Rightarrow> nat \<Rightarrow> u32 list \<Rightarrow> u8 list \<Rightarrow> u8 list" where
  "enc_blocks Z input blocks EK ME = concat (map (enc_block Z EK ME input) [0..<blocks])"

text \<open>
  \<^verbatim>\<open>aes_encrypt_n\<close>.  The result is \<open>None\<close> when the sweep does not end,
  \<open>Some (Inl e)\<close> when the assertion fails, and otherwise the \<open>16 * blocks\<close> bytes written
  to \<^verbatim>\<open>out\<close>.
\<close>
definition aes_encrypt_n ::
  "nat \<Rightarrow> u8 list \<Rightarrow> nat \<Rightarrow> u32 list \<Rightarrow> u8 list \<Rightarrow> (error + u8 list) option" where
  "aes_encrypt_n cache_line_size input blocks EK ME =
     (if \<not> (length EK \<noteq> 0 \<and> length ME = 16) then Some (Inl Assertion_Failure)
      else case sweep_TE cache_line_size of
             None \<Rightarrow> None
           | Some Z \<Rightarrow> Some (Inr (enc_blocks Z input blocks EK ME)))"

function dec_rounds :: "u32 list \<Rightarrow> nat \<Rightarrow> aes_state \<Rightarrow> aes_state" where
  "dec_rounds DK r (B0, B1, B2, B3) =
     (if r < length DK then
        let T0 = AES_T AES_TD (DK ! r) B0 B3 B2 B1;
            T1 = AES_T AES_TD (DK ! (r + 1)) B1 B0 B3 B2;
            T2 = AES_T AES_TD (DK ! (r + 2)) B2 B1 B0 B3;
            T3 = AES_T AES_TD (DK ! (r + 3)) B3 B2 B1 B0;
            B0 = AES_T AES_TD (DK ! (r + 4)) T0 T3 T2 T1;
            B1 = AES_T AES_TD (DK ! (r + 5)) T1 T0 T3 T2;
            B2 = AES_T AES_TD (DK ! (r + 6)) T2 T1 T0 T3;
            B3 = AES_T AES_TD (DK ! (r + 7)) T3 T2 T1 T0
        in dec_rounds DK (r + 8) (B0, B1, B2, B3)
      else (B0, B1, B2, B3))"
  by pat_completeness auto
termination
  by (relation "measure (\<lambda>(DK, r, B). length DK - r)") auto

declare dec_rounds.simps [simp del]

text \<open>One iteration of the block loop of \<^verbatim>\<open>aes_decrypt_n\<close>; the source advances
  \<^verbatim>\<open>in\<close> and \<^verbatim>\<open>out\<close> by 16 bytes after each block.\<close>
definition dec_block :: "u32 \<Rightarrow> u32 list \<Rightarrow> u8 list \<Rightarrow> u8 list \<Rightarrow> nat \<Rightarrow> u8 list" where
  "dec_block Z DK MD input i =
     (let T0 = load_be input (4 * i) XOR DK ! 0;
          T1 = load_be input (4 * i + 1) XOR DK ! 1;
          T2 = load_be input (4 * i + 2) XOR DK ! 2;
          T3 = load_be input (4 * i + 3) XOR DK ! 3;
          T0 = T0 XOR Z;
          B0 = AES_T AES_TD (DK ! 4) T0 T3 T2 T1;
          B1 = AES_T AES_TD (DK ! 5) T1 T0 T3 T2;
          B2 = AES_T AES_TD (DK ! 6) T2 T1 T0 T3;
          B3 = AES_T AES_TD (DK ! 7) T3 T2 T1 T0;
          (B0, B1, B2, B3) = dec_rounds DK 8 (B0, B1, B2, B3)
      in [SD ! unat (get_byte 0 B0) XOR MD ! 0,
          SD ! unat (get_byte 1 B3) XOR MD ! 1,
          SD ! unat (get_byte 2 B2) XOR MD ! 2,
          SD ! unat (get_byte 3 B1) XOR MD ! 3,
          SD ! unat (get_byte 0 B1) XOR MD ! 4,
          SD ! unat (get_byte 1 B0) XOR MD ! 5,
          SD ! unat (get_byte 2 B3) XOR MD ! 6,
          SD ! unat (get_byte 3 B2) XOR MD ! 7,
          SD ! unat (get_byte 0 B2) XOR MD ! 8,
          SD ! unat (get_byte 1 B1) XOR MD ! 9,
          SD ! unat (get_byte 2 B0) XOR MD ! 10,
          SD ! unat (get_byte 3 B3) XOR MD ! 11,
          SD ! unat (get_byte 0 B3) XOR MD ! 12,
          SD ! unat (get_byte 1 B2) XOR MD ! 13,
          SD ! unat (get_byte 2 B1) XOR MD ! 14,
          SD ! unat (get_byte 3 B0) XOR MD ! 15])"

definition dec_blocks :: "u32 \<Rightarrow> u8 list \<Rightarrow> nat \<Rightarrow> u32 list \<Rightarrow> u8 list \<Rightarrow> u8 list" where
  "dec_blocks Z input blocks DK MD = concat (map (dec_block Z DK MD input) [0..<blocks])"

definition aes_decrypt_n ::
  "nat \<Rightarrow> u8 list \<Rightarrow> nat \<Rightarrow> u32 list \<Rightarrow> u8 list \<Rightarrow> (error + u8 list) option" where
  "aes_decrypt_n cache_line_size input blocks DK MD =
     (if \<not> (length DK \<noteq> 0 \<and> length MD = 16) then Some (Inl Assertion_Failure)
      else case sweep_TD cache_line_size of
             None \<Rightarrow> None
           | Some Z \<Rightarrow> Some (Inr (dec_blocks Z input blocks DK MD)))"

subsection \<open>The key schedule\<close>

definition RC :: "u32 list" where
  "RC = [0x01000000, 0x02000000, 0x04000000, 0x08000000, 0x10000000,
         0x20000000, 0x40000000, 0x80000000, 0x1B000000, 0x36000000]"

text \<open>The inner loop \<^verbatim>\<open>for(size_t j = 1; j != X; ++j)\<close> of the key expansion.\<close>
definition expand_inner :: "nat \<Rightarrow> nat \<Rightarrow> u32 list \<Rightarrow> u32 list" where
  "expand_inner X i XEK =
     foldl (\<lambda>XEK j.
              let XEK = XEK[i + j := XEK ! (i + j - X)]
              in if X = 8 \<and> j = 4 then XEK[i + j := XEK ! (i + j) XOR SE_word (XEK ! (i + j - 1))]
                 else XEK[i + j := XEK ! (i + j) XOR XEK ! (i + j - 1)])
           XEK [1..<X]"

text \<open>
  The outer loop \<^verbatim>\<open>for(size_t i = X; i < 4*(rounds+1); i += X)\<close>.  The source asserts
  that \<open>X\<close> is 4, 6 or 8 before the loop; the guard \<open>0 < X\<close> stands for that here.
\<close>
function expand_outer :: "nat \<Rightarrow> nat \<Rightarrow> nat \<Rightarrow> u32 list \<Rightarrow> u32 list" where
  "expand_outer X bound i XEK =
     (if i < bound \<and> 0 < X then
        let XEK = XEK[i := XEK ! (i - X) XOR RC ! ((i - X) div X) XOR rotl 8 (SE_word (XEK ! (i - 1)))]
        in expand_outer X bound (i + X) (expand_inner X i XEK)
      else XEK)"
  by pat_completeness auto
termination
  by (relation "measure (\<lambda>(X, bound, i, XEK). bound - i)") auto

declare expand_outer.simps [simp del]

text \<open>The loop \<^verbatim>\<open>for(size_t i = 0; i != 4*(rounds+1); i += 4)\<close> that reverses the order of
  the round keys; iteration \<open>k\<close> has \<open>i = 4 * k\<close>.\<close>
definition reverse_keys :: "nat \<Rightarrow> u32 list \<Rightarrow> u32 list \<Rightarrow> u32 list" where
  "reverse_keys rounds XEK XDK =
     foldl (\<lambda>XDK k.
              let i = 4 * k;
                  XDK = XDK[i := XEK ! (4 * rounds - i)];
                  XDK = XDK[i + 1 := XEK ! (4 * rounds - i + 1)];
                  XDK = XDK[i + 2 := XEK ! (4 * rounds - i + 2)];
                  XDK = XDK[i + 3 := XEK ! (4 * rounds - i + 3)]
              in XDK)
           XDK [0..<rounds + 1]"

text \<open>The word transformation of the loop \<^verbatim>\<open>for(size_t i = 4; i != length + 24; ++i)\<close>.\<close>
definition inv_mix_word :: "u32 \<Rightarrow> u32" where
  "inv_mix_word w =
     (let s0 = get_byte 0 w;
          s1 = get_byte 1 w;
          s2 = get_byte 2 w;
          s3 = get_byte 3 w
      in InvMixColumn s0 XOR rotr 8 (InvMixColumn s1) XOR rotr 16 (InvMixColumn s2)
           XOR rotr 24 (InvMixColumn s3))"

definition inv_mix_keys :: "nat \<Rightarrow> u32 list \<Rightarrow> u32 list" where
  "inv_mix_keys len XDK = foldl (\<lambda>XDK i. XDK[i := inv_mix_word (XDK ! i)]) XDK [4..<len + 24]"

text \<open>
  \<^verbatim>\<open>aes_key_schedule\<close> (the byte reversal for ARM is compiled in only with
  \<^verbatim>\<open>BOTAN_HAS_AES_ARMV8\<close> and is left out).  The result is \<open>(EK, DK, ME, MD)\<close>.
\<close>
definition aes_key_schedule ::
  "u8 list \<Rightarrow> error + (u32 list \<times> u32 list \<times> u8 list \<times> u8 list)" where
  "aes_key_schedule key =
     (let len = length key;
          X = len div 4
      in if \<not> (X = 4 \<or> X = 6 \<or> X = 8) then Inl Assertion_Failure
         else
           let rounds = len div 4 + 6;
               XEK = replicate (len + 32) 0;
               XDK = replicate (len + 32) 0;
               XEK = foldl (\<lambda>XEK i. XEK[i := load_be key i]) XEK [0..<X];
               XEK = expand_outer X (4 * (rounds + 1)) X XEK;
               XDK = reverse_keys rounds XEK XDK;
               XDK = inv_mix_keys len XDK;
               ME = concat (map (\<lambda>i. store_be (XEK ! (i + 4 * rounds))) [0..<4]);
               MD = concat (map (\<lambda>i. store_be (XEK ! i)) [0..<4]);
               EK = take (len + 24) XEK;
               DK = take (len + 24) XDK
           in Inr (EK, DK, ME, MD))"

subsection \<open>Notions used to state and prove the properties of the cipher\<close>

text \<open>
  These definitions are not part of the program.  They name the steps of a round on a
  state of four words: the column mixing fused into the table \<^verbatim>\<open>TE\<close>, the byte
  substitution with the row shift that the argument order of \<^verbatim>\<open>AES_T\<close> performs, the
  round keys as groups of four words, and the sequence of states after each round.
\<close>

definition TE_word :: "u8 \<Rightarrow> u32" where
  "TE_word s = make_uint32 (xtime s) s s (xtime3 s)"

definition mix_word :: "u32 \<Rightarrow> u32" where
  "mix_word w =
     TE_word (get_byte 0 w) XOR rotr 8 (TE_word (get_byte 1 w))
       XOR rotr 16 (TE_word (get_byte 2 w)) XOR rotr 24 (TE_word (get_byte 3 w))"

definition sub_word :: "u32 \<Rightarrow> u32 \<Rightarrow> u32 \<Rightarrow> u32 \<Rightarrow> u32" where
  "sub_word a b c d =
     make_uint32 (SE ! unat (get_byte 0 a)) (SE ! unat (get_byte 1 b))
                 (SE ! unat (get_byte 2 c)) (SE ! unat (get_byte 3 d))"

definition inv_sub_word :: "u32 \<Rightarrow> u32 \<Rightarrow> u32 \<Rightarrow> u32 \<Rightarrow> u32" where
  "inv_sub_word a b c d =
     make_uint32 (SD ! unat (get_byte 0 a)) (SD ! unat (get_byte 1 b))
                 (SD ! unat (get_byte 2 c)) (SD ! unat (get_byte 3 d))"

definition key4 :: "u32 list \<Rightarrow> nat \<Rightarrow> aes_state" where
  "key4 K r = (K ! r, K ! (r + 1), K ! (r + 2), K ! (r + 3))"

definition xor4 :: "aes_state \<Rightarrow> aes_state \<Rightarrow> aes_state" where
  "xor4 A B = (case A of (a0, a1, a2, a3) \<Rightarrow> case B of (b0, b1, b2, b3) \<Rightarrow>
                 (a0 XOR b0, a1 XOR b1, a2 XOR b2, a3 XOR b3))"

definition map4 :: "(u32 \<Rightarrow> u32) \<Rightarrow> aes_state \<Rightarrow> aes_state" where
  "map4 f A = (case A of (a0, a1, a2, a3) \<Rightarrow> (f a0, f a1, f a2, f a3))"

definition sub_shift :: "aes_state \<Rightarrow> aes_state" where
  "sub_shift A = (case A of (T0, T1, T2, T3) \<Rightarrow>
     (sub_word T0 T1 T2 T3, sub_word T1 T2 T3 T0, sub_word T2 T3 T0 T1, sub_word T3 T0 T1 T2))"

definition inv_sub_shift :: "aes_state \<Rightarrow> aes_state" where
  "inv_sub_shift A = (case A of (T0, T1, T2, T3) \<Rightarrow>
     (inv_sub_word T0 T3 T2 T1, inv_sub_word T1 T0 T3 T2, inv_sub_word T2 T1 T0 T3,
      inv_sub_word T3 T2 T1 T0))"

definition enc_round :: "u32 list \<Rightarrow> nat \<Rightarrow> aes_state \<Rightarrow> aes_state" where
  "enc_round EK r A = xor4 (key4 EK r) (map4 mix_word (sub_shift A))"

definition dec_round :: "u32 list \<Rightarrow> nat \<Rightarrow> aes_state \<Rightarrow> aes_state" where
  "dec_round DK r A = xor4 (key4 DK r) (map4 inv_mix_word (inv_sub_shift A))"

primrec enc_seq :: "u32 list \<Rightarrow> aes_state \<Rightarrow> nat \<Rightarrow> aes_state" where
  "enc_seq EK S0 0 = S0"
| "enc_seq EK S0 (Suc n) = enc_round EK (4 * Suc n) (enc_seq EK S0 n)"

primrec dec_seq :: "u32 list \<Rightarrow> aes_state \<Rightarrow> nat \<Rightarrow> aes_state" where
  "dec_seq DK D0 0 = D0"
| "dec_seq DK D0 (Suc n) = dec_round DK (4 * Suc n) (dec_seq DK D0 n)"

definition bytes4 :: "aes_state \<Rightarrow> u8 list" where
  "bytes4 A = (case A of (a, b, c, d) \<Rightarrow> store_be a @ store_be b @ store_be c @ store_be d)"

definition load4 :: "u8 list \<Rightarrow> nat \<Rightarrow> aes_state" where
  "load4 input i =
     (load_be input (4 * i), load_be input (4 * i + 1), load_be input (4 * i + 2),
      load_be input (4 * i + 3))"

definition reverse_upto :: "nat \<Rightarrow> u32 list \<Rightarrow> u32 list \<Rightarrow> nat \<Rightarrow> u32 list" where
  "reverse_upto rounds XEK XDK n =
     foldl (\<lambda>XDK k.
              let i = 4 * k;
                  XDK = XDK[i := XEK ! (4 * rounds - i)];
                  XDK = XDK[i + 1 := XEK ! (4 * rounds - i + 1)];
                  XDK = XDK[i + 2 := XEK ! (4 * rounds - i + 2)];
                  XDK = XDK[i + 3 := XEK ! (4 * rounds - i + 3)]
              in XDK)
           XDK [0..<n]"

definition final_XEK :: "u8 list \<Rightarrow> u32 list" where
  "final_XEK key =
     (let len = length key; X = len div 4; rounds = len div 4 + 6
      in expand_outer X (4 * (rounds + 1)) X
           (foldl (\<lambda>XEK i. XEK[i := load_be key i]) (replicate (len + 32) 0) [0..<X]))"


section \<open>BigInt: constant-time lookup and conditional assignment\<close>

lemma select_zero_mask: "select 0 a b = b"
  by (simp add: select_def)

lemma select_ones_mask: "select (- 1) a b = a"
  by (simp add: select_def)

subsection \<open>\<^verbatim>\<open>const_time_lookup\<close>\<close>

lemma lookup_words_prefix:
  "n \<le> length out \<Longrightarrow>
   foldl (\<lambda>out w. out[w := (out ! w) OR select msk (word_at b w) 0]) out [0..<n]
     = map (\<lambda>w. (out ! w) OR select msk (word_at b w) 0) [0..<n] @ drop n out"
proof (induction n)
  case 0
  then show ?case by simp
next
  case (Suc n)
  then have n: "n < length out" by simp
  have d: "drop n out = out ! n # drop (Suc n) out"
    using n by (simp add: Cons_nth_drop_Suc)
  show ?case using Suc n
    by (simp add: d nth_append list_update_append)
qed

lemma lookup_words_eq:
  "lookup_words msk b out = map (\<lambda>w. (out ! w) OR select msk (word_at b w) 0) [0..<length out]"
  using lookup_words_prefix [of "length out" out msk b] by (simp add: lookup_words_def)

lemma lookup_words_miss: "lookup_words 0 b out = out"
  by (simp add: lookup_words_eq select_zero_mask map_nth)

lemma lookup_words_hit:
  "n \<le> size_b b \<Longrightarrow> lookup_words (- 1) b (replicate n 0) = take n (m_data b)"
  by (auto simp: lookup_words_eq select_ones_mask word_at_def size_b_def intro!: nth_equalityI)

lemma lookup_loop_past:
  "\<forall>b \<in> set bs. length out \<le> size_b b \<Longrightarrow> idx < i \<Longrightarrow> lookup_loop bs i idx out = Inr out"
  by (induction bs arbitrary: i) (auto simp: is_equal_def lookup_words_miss)

lemma lookup_loop_zero:
  "\<forall>b \<in> set bs. n \<le> size_b b \<Longrightarrow> i \<le> idx \<Longrightarrow>
   lookup_loop bs i idx (replicate n 0) =
     Inr (if idx < i + length bs then take n (m_data (bs ! (idx - i))) else replicate n 0)"
proof (induction bs arbitrary: i)
  case Nil
  then show ?case by simp
next
  case (Cons b bs)
  show ?case
  proof (cases "i = idx")
    case True
    have "lookup_loop bs (Suc idx) idx (take n (m_data b)) = Inr (take n (m_data b))"
      using Cons.prems by (intro lookup_loop_past) (auto simp: size_b_def)
    then show ?thesis using True Cons.prems
      by (simp add: is_equal_def lookup_words_hit)
  next
    case False
    then have lt: "Suc i \<le> idx" using Cons.prems by simp
    have "lookup_loop bs (Suc i) idx (replicate n 0) =
        Inr (if idx < Suc i + length bs then take n (m_data (bs ! (idx - Suc i)))
             else replicate n 0)"
      using Cons.prems lt by (intro Cons.IH) auto
    then show ?thesis using False Cons.prems lt
      by (auto simp: is_equal_def lookup_words_miss nth_Cons')
  qed
qed

text \<open>
  Claim C9.  Let every entry of \<open>vec\<close> have at least as many limbs as \<open>output\<close> has words.
  Then \<^verbatim>\<open>const_time_lookup(output, vec, idx)\<close> raises nothing; afterwards \<open>output\<close>
  holds the low \<open>length output\<close> limbs of \<open>vec[idx]\<close> when \<open>idx\<close> is in range, and is all
  zero when \<open>idx\<close> is out of range.
\<close>
theorem const_time_lookup_correct:
  assumes "\<forall>b \<in> set vec. length output \<le> size_b b"
  shows "const_time_lookup output vec idx =
           Inr (if idx < length vec then take (length output) (m_data (vec ! idx))
                else replicate (length output) 0)"
  using lookup_loop_zero [OF assms, of 0 idx] by (simp add: const_time_lookup_def)

theorem const_time_lookup_correct_witness:
  "list_all (\<lambda>b. length [7, 7 :: mp_word] \<le> size_b b)
     [\<lparr>m_data = [1, 2], m_signedness = Positive\<rparr>,
      \<lparr>m_data = [3, 4, 5], m_signedness = Negative\<rparr>]
   \<and> const_time_lookup [7, 7]
        [\<lparr>m_data = [1, 2], m_signedness = Positive\<rparr>,
         \<lparr>m_data = [3, 4, 5], m_signedness = Negative\<rparr>] 1 = Inr [3, 4]
   \<and> const_time_lookup [7, 7]
        [\<lparr>m_data = [1, 2], m_signedness = Positive\<rparr>,
         \<lparr>m_data = [3, 4, 5], m_signedness = Negative\<rparr>] 2 = Inr [0, 0]"
proof -
  let ?vec = "[\<lparr>m_data = [1, 2], m_signedness = Positive\<rparr>,
               \<lparr>m_data = [3, 4, 5 :: mp_word], m_signedness = Negative\<rparr>]"
  have h: "\<forall>b \<in> set ?vec. length [7, 7 :: mp_word] \<le> size_b b"
    by (simp add: size_b_def)
  show ?thesis
    using h const_time_lookup_correct [OF h, of 1] const_time_lookup_correct [OF h, of 2]
    by (simp add: numeral_2_eq_2)
qed

subsection \<open>\<^verbatim>\<open>ct_cond_assign\<close>\<close>

lemma sign_set_word_at: "m_signedness (set_word_at b i w) = m_signedness b"
  by (simp add: set_word_at_def grow_to_def Let_def)

lemma word_at_set_word_at:
  "word_at (set_word_at b i w) j = (if j = i then w else word_at b j)"
  by (auto simp: set_word_at_def grow_to_def Let_def size_b_def word_at_def nth_append
                 nth_list_update)

lemma assign_loop_Suc:
  "assign_loop msk this other (Suc n) =
     (let t = assign_loop msk this other n
      in set_word_at t n (select msk (word_at other n) (word_at t n)))"
  by (simp add: assign_loop_def Let_def)

lemma assign_loop_sign: "m_signedness (assign_loop msk this other n) = m_signedness this"
proof (induction n)
  case 0
  then show ?case by (simp add: assign_loop_def)
next
  case (Suc n)
  then show ?case by (simp add: assign_loop_Suc Let_def sign_set_word_at)
qed

lemma assign_loop_word_at:
  "word_at (assign_loop msk this other n) j =
     (if j < n then select msk (word_at other j) (word_at this j) else word_at this j)"
proof (induction n)
  case 0
  then show ?case by (simp add: assign_loop_def)
next
  case (Suc n)
  then show ?case
    by (auto simp: assign_loop_Suc Let_def word_at_set_word_at less_Suc_eq)
qed

lemma word_at_past: "size_b b \<le> j \<Longrightarrow> word_at b j = 0"
  by (simp add: word_at_def)

text \<open>
  Claim C10.  \<^verbatim>\<open>a.ct_cond_assign(p, b)\<close> never changes the sign of \<open>a\<close>; every limb of
  the result (read with \<^verbatim>\<open>word_at\<close>, so zero past the end) is the limb of \<open>b\<close> when \<open>p\<close>
  holds and the limb of \<open>a\<close> otherwise.
\<close>
theorem ct_cond_assign_frame:
  "m_signedness (ct_cond_assign a p b) = m_signedness a \<and>
   (\<forall>i. word_at (ct_cond_assign a p b) i = (if p then word_at b i else word_at a i))"
proof -
  have eq: "ct_cond_assign a p b = assign_loop (expand_mask p) a b (max (size_b a) (size_b b))"
    by (simp add: ct_cond_assign_def Let_def)
  have "word_at (ct_cond_assign a p b) i = (if p then word_at b i else word_at a i)" for i
  proof (cases "i < max (size_b a) (size_b b)")
    case True
    then show ?thesis
      by (simp add: eq assign_loop_word_at expand_mask_def select_def)
  next
    case False
    then have "word_at a i = 0" "word_at b i = 0"
      by (simp_all add: word_at_past)
    with False show ?thesis
      by (simp add: eq assign_loop_word_at)
  qed
  then show ?thesis
    by (simp add: eq assign_loop_sign)
qed

text \<open>The instance of the claim: a negative \<open>b\<close> assigned to a positive \<open>a\<close>.\<close>
theorem ct_cond_assign_frame_witness:
  "m_signedness (ct_cond_assign \<lparr>m_data = [1, 2], m_signedness = Positive\<rparr> True
                   \<lparr>m_data = [5, 6, 7], m_signedness = Negative\<rparr>) = Positive
   \<and> word_at (ct_cond_assign \<lparr>m_data = [1, 2], m_signedness = Positive\<rparr> True
                   \<lparr>m_data = [5, 6, 7], m_signedness = Negative\<rparr>) 2 = 7
   \<and> word_at (ct_cond_assign \<lparr>m_data = [1, 2], m_signedness = Positive\<rparr> False
                   \<lparr>m_data = [5, 6, 7], m_signedness = Negative\<rparr>) 2 = 0"
  using ct_cond_assign_frame [of "\<lparr>m_data = [1, 2], m_signedness = Positive\<rparr>" True
                                 "\<lparr>m_data = [5, 6, 7], m_signedness = Negative\<rparr>"]
        ct_cond_assign_frame [of "\<lparr>m_data = [1, 2], m_signedness = Positive\<rparr>" False
                                 "\<lparr>m_data = [5, 6, 7], m_signedness = Negative\<rparr>"]
  by (simp add: word_at_def size_b_def)

section \<open>XMSS parameters from an algorithm name\<close>

lemma lut_at_cases:
  "lut_at nm =
     (if nm = ''XMSS_SHA2-256_W16_H10'' then Inr XMSS_SHA2_256_W16_H10
      else if nm = ''XMSS_SHA2-256_W16_H16'' then Inr XMSS_SHA2_256_W16_H16
      else if nm = ''XMSS_SHA2-256_W16_H20'' then Inr XMSS_SHA2_256_W16_H20
      else if nm = ''XMSS_SHA2-512_W16_H10'' then Inr XMSS_SHA2_512_W16_H10
      else if nm = ''XMSS_SHA2-512_W16_H16'' then Inr XMSS_SHA2_512_W16_H16
      else if nm = ''XMSS_SHA2-512_W16_H20'' then Inr XMSS_SHA2_512_W16_H20
      else Inl Std_out_of_range)"
  unfolding lut_at_def m_oid_name_lut_def map_of.simps fst_conv snd_conv fun_upd_apply
  by simp

text \<open>
  Each of the six names of \<^verbatim>\<open>m_oid_name_lut\<close> constructs the record of its parameter set.
\<close>
lemma xmss_supported_names:
  "XMSS_Parameters_of_name ''XMSS_SHA2-256_W16_H10'' =
       Inr \<lparr>m_oid = XMSS_SHA2_256_W16_H10, m_element_size = 32, m_w = 16, m_len = 67,
            m_tree_height = 10, m_name = ''XMSS_SHA2-256_W16_H10'', m_hash_name = ''SHA-256'',
            m_strength = 256, m_wots_oid = WOTSP_SHA2_256_W16\<rparr>
   \<and> XMSS_Parameters_of_name ''XMSS_SHA2-256_W16_H16'' =
       Inr \<lparr>m_oid = XMSS_SHA2_256_W16_H16, m_element_size = 32, m_w = 16, m_len = 67,
            m_tree_height = 16, m_name = ''XMSS_SHA2-256_W16_H16'', m_hash_name = ''SHA-256'',
            m_strength = 256, m_wots_oid = WOTSP_SHA2_256_W16\<rparr>
   \<and> XMSS_Parameters_of_name ''XMSS_SHA2-256_W16_H20'' =
       Inr \<lparr>m_oid = XMSS_SHA2_256_W16_H20, m_element_size = 32, m_w = 16, m_len = 67,
            m_tree_height = 20, m_name = ''XMSS_SHA2-256_W16_H20'', m_hash_name = ''SHA-256'',
            m_strength = 256, m_wots_oid = WOTSP_SHA2_256_W16\<rparr>
   \<and> XMSS_Parameters_of_name ''XMSS_SHA2-512_W16_H10'' =
       Inr \<lparr>m_oid = XMSS_SHA2_512_W16_H10, m_element_size = 64, m_w = 16, m_len = 131,
            m_tree_height = 10, m_name = ''XMSS_SHA2-512_W16_H10'', m_hash_name = ''SHA-512'',
            m_strength = 512, m_wots_oid = WOTSP_SHA2_512_W16\<rparr>
   \<and> XMSS_Parameters_of_name ''XMSS_SHA2-512_W16_H16'' =
       Inr \<lparr>m_oid = XMSS_SHA2_512_W16_H16, m_element_size = 64, m_w = 16, m_len = 131,
            m_tree_height = 16, m_name = ''XMSS_SHA2-512_W16_H16'', m_hash_name = ''SHA-512'',
            m_strength = 512, m_wots_oid = WOTSP_SHA2_512_W16\<rparr>
   \<and> XMSS_Parameters_of_name ''XMSS_SHA2-512_W16_H20'' =
       Inr \<lparr>m_oid = XMSS_SHA2_512_W16_H20, m_element_size = 64, m_w = 16, m_len = 131,
            m_tree_height = 20, m_name = ''XMSS_SHA2-512_W16_H20'', m_hash_name = ''SHA-512'',
            m_strength = 512, m_wots_oid = WOTSP_SHA2_512_W16\<rparr>"
  by (simp add: XMSS_Parameters_of_name_def lut_at_cases mk_params_def)

text \<open>
  Every other name leaves the string constructor through the lookup
  \<^verbatim>\<open>m_oid_name_lut.at(algo_name)\<close>, before the delegated constructor runs.
\<close>
lemma xmss_name_not_in_lut:
  "nm \<notin> {''XMSS_SHA2-256_W16_H10'', ''XMSS_SHA2-256_W16_H16'', ''XMSS_SHA2-256_W16_H20'',
           ''XMSS_SHA2-512_W16_H10'', ''XMSS_SHA2-512_W16_H16'', ''XMSS_SHA2-512_W16_H20''}
   \<Longrightarrow> XMSS_Parameters_of_name nm = Inl Std_out_of_range"
  by (simp add: XMSS_Parameters_of_name_def lut_at_cases)

text \<open>
  Claim C8: constructing \<^verbatim>\<open>XMSS_Parameters\<close> from a string that is not a supported
  algorithm name fails with \<^verbatim>\<open>Invalid_Argument\<close>.  The code does not do this.  For the
  name \<^verbatim>\<open>XMSS_SHAKE128_W16_H10\<close> the string constructor fails with
  \<^verbatim>\<open>std::out_of_range\<close>, which is not an \<^verbatim>\<open>Invalid_Argument\<close>, and it differs from
  \<^verbatim>\<open>Invalid_Argument\<close> itself.  The constructor it delegates to, given the identifier
  \<^verbatim>\<open>XMSS_SHAKE128_W16_H10\<close> of the same unsupported algorithm, fails with
  \<^verbatim>\<open>Unsupported_Argument\<close>, which is an \<^verbatim>\<open>Invalid_Argument\<close>: the lookup
  \<^verbatim>\<open>m_oid_name_lut.at(algo_name)\<close> throws before that constructor is reached.
\<close>
theorem xmss_unknown_name_out_of_range:
  "XMSS_Parameters_of_name ''XMSS_SHAKE128_W16_H10'' = Inl Std_out_of_range
   \<and> XMSS_Parameters_of_name ''XMSS_SHAKE128_W16_H10'' \<noteq> Inl Invalid_Argument
   \<and> \<not> is_Invalid_Argument Std_out_of_range
   \<and> XMSS_Parameters_of_oid XMSS_SHAKE128_W16_H10 = Inl Unsupported_Argument
   \<and> is_Invalid_Argument Unsupported_Argument"
  by (simp add: XMSS_Parameters_of_name_def lut_at_cases is_Invalid_Argument_def)
section \<open>Ed448: domain separation, context length and the candidate root\<close>

lemma length_nat_le: "length (nat_le n v) = n"
  by (induction n arbitrary: v) simp_all

lemma length_encode: "length (encode P) = 57"
  by (simp add: encode_def gf_to_bytes_def length_nat_le)

lemma length_sc_to_bytes: "length (sc_to_bytes s) = 57"
  by (simp add: sc_to_bytes_def length_nat_le)

lemma dom4_ok:
  "length y < 256 \<Longrightarrow>
   dom4 x y = Inr (map (\<lambda>c. of_nat (of_char c)) ''SigEd448'' @ [x] @ [of_nat (length y)] @ y)"
  by (simp add: dom4_def)

lemma dom4_too_long: "256 \<le> length y \<Longrightarrow> dom4 x y = Inl Invalid_Argument"
  by (simp add: dom4_def)

lemma octet_length: "length y < 256 \<Longrightarrow> unat (of_nat (length y) :: u8) = length y"
  by (simp add: unat_of_nat)

lemma shake_ok: "length c < 256 \<Longrightarrow> \<exists>bs. shake X f c xs = Inr bs"
  by (simp add: shake_def dom4_def)

lemma shake_too_long: "256 \<le> length c \<Longrightarrow> shake X f c xs = Inl Invalid_Argument"
  by (simp add: shake_def dom4_def)

lemma sign_message_ok:
  assumes "length c < 256"
  shows "\<exists>sig. sign_message X sk pk f c m = Inr sig \<and> length sig = 114"
  using assms
  by (simp add: sign_message_def Let_def shake_def dom4_def length_encode length_sc_to_bytes
                ED448_LEN_def)

lemma sign_message_too_long:
  "256 \<le> length c \<Longrightarrow> sign_message X sk pk f c m = Inl Invalid_Argument"
  by (simp add: sign_message_def Let_def shake_too_long)

lemma verify_too_long:
  "256 \<le> length c \<Longrightarrow> \<exists>e. verify_signature X pk f c sig m = Inl e"
  by (simp add: verify_signature_def Let_def shake_too_long split: prod.splits sum.splits)

lemma decode_error: "decode enc = Inl e \<Longrightarrow> e = Decoding_Error"
  by (auto simp: decode_def Let_def split: if_splits)

lemma verify_no_invalid_argument:
  "length c < 256 \<Longrightarrow> verify_signature X pk f c sig m \<noteq> Inl Invalid_Argument"
  by (auto simp: verify_signature_def Let_def shake_def dom4_def split: prod.splits sum.splits dest: decode_error)

lemma verify_ok:
  assumes "length c < 256" "length sig = 114"
      "decode (take 57 sig) = Inr R" "bytes_are_reduced (drop 57 sig)" "decode pk = Inr A"
  shows "\<exists>b. verify_signature X pk f c sig m = Inr b"
proof -
  obtain k_bytes where
    k: "shake X f c [take 57 sig, pk, m] = Inr k_bytes"
    using shake_ok [OF assms(1)] by blast
  show ?thesis using assms
    by (simp add: verify_signature_def Let_def split_def k ED448_LEN_def)
qed

lemma p448_gt: "1 < p448"
  by (simp add: p448_def)

lemma gf_mul_0 [simp]: "gf_mul 0 b = 0"
  by (simp add: gf_mul_def)

lemma decode_identity: "decode (1 # replicate 56 0) = Inr (Ed448Point_xy 0 1)"
proof -
  have l: "le_nat (take 56 (1 # replicate 56 0)) = 1"
    by (simp add: numeral_eq_Suc)
  have c: "bytes_are_canonical_representation (take 56 (1 # replicate 56 0))"
    unfolding bytes_are_canonical_representation_def l by (rule p448_gt)
  have y: "Gf448Elem_of_bytes (take 56 (1 # replicate 56 0)) = 1"
    unfolding Gf448Elem_of_bytes_def l using p448_gt by simp
  have u: "decode_u 1 = 0"
    using p448_gt by (simp add: decode_u_def square_def gf_mul_def gf_sub_def)
  have mx: "decode_maybe_x 1 = 0"
    unfolding decode_maybe_x_def Let_def u by simp
  have la: "last (1 # replicate 56 (0::u8)) = 0"
    by simp
  show ?thesis
    unfolding decode_def la Let_def y u mx using c
    by (simp add: square_def gf_mul_def is_zero_def is_odd_def)
qed




subsection \<open>The candidate root of point decoding\<close>

lemma p448_gt3: "3 < p448"
  by (simp add: p448_def)

lemma int_gf_mul: "int (gf_mul a b) = (int a * int b) mod int p448"
  by (simp add: gf_mul_def zmod_int)

lemma int_square: "int (square a) = (int a * int a) mod int p448"
  by (simp add: square_def int_gf_mul)

lemma int_gf_neg: "int (gf_neg a) = (- int a) mod int p448"
proof -
  have le: "a mod p448 \<le> p448" using p448_gt by (simp add: mod_le_divisor)
  have "int (gf_neg a) = (int p448 - int a mod int p448) mod int p448"
    using le by (simp add: gf_neg_def zmod_int of_nat_diff)
  also have "\<dots> = (- int a) mod int p448"
    by (metis diff_0 minus_mod_self1 mod_diff_right_eq)
  finally show ?thesis .
qed

lemma int_gf_sub: "int (gf_sub a b) = (int a - int b) mod int p448"
proof -
  have le: "b mod p448 \<le> p448" using p448_gt by (simp add: mod_le_divisor)
  have "int (a + (p448 - b mod p448)) = int a + (int p448 - int b mod int p448)"
    using le by (simp add: zmod_int of_nat_diff)
  then have "int (gf_sub a b) = (int a + (int p448 - int b mod int p448)) mod int p448"
    by (simp add: gf_sub_def zmod_int)
  also have "\<dots> = (int a - int b) mod int p448"
    by (smt (verit, ccfv_threshold) mod_add_self2 mod_diff_right_eq)
  finally show ?thesis .
qed

lemma pow_mod_in_prod: "(a * (b mod P) ^ n) mod P = (a * b ^ n) mod (P::int)"
  by (metis mod_mult_right_eq power_mod)

lemma gf_pow_eq: "gf_pow a e = a ^ e mod p448"
proof (induction a e rule: gf_pow.induct)
  case (1 a e)
  show ?case
  proof (cases "e = 0")
    case True
    then show ?thesis by (simp add: gf_pow.simps)
  next
    case False
    have h: "gf_pow a (e div 2) = a ^ (e div 2) mod p448"
      using "1.IH" False by simp
    have sq: "gf_mul (gf_pow a (e div 2)) (gf_pow a (e div 2)) = a ^ (2 * (e div 2)) mod p448"
      by (simp add: h gf_mul_def mod_mult_eq mult_2 power_add)
    show ?thesis
    proof (cases "odd e")
      case True
      then have e: "e = Suc (2 * (e div 2))" by (simp add: odd_two_times_div_two_succ)
      have "gf_pow a e = gf_mul (a ^ (2 * (e div 2)) mod p448) a"
        using False True sq by (subst gf_pow.simps) (simp add: Let_def)
      also have "\<dots> = (a ^ (2 * (e div 2)) * a) mod p448"
        by (simp add: gf_mul_def mod_mult_left_eq)
      also have "\<dots> = a ^ e mod p448"
        by (subst (2) e) (simp add: mult.commute)
      finally show ?thesis .
    next
      case eve: False
      then have e: "e = 2 * (e div 2)" by simp
      have "gf_pow a e = a ^ (2 * (e div 2)) mod p448"
        using False eve sq by (subst gf_pow.simps) (simp add: Let_def)
      then show ?thesis using e by simp
    qed
  qed
qed

lemma int_gf_pow: "int (gf_pow a e) = (int a ^ e) mod int p448"
  by (simp add: gf_pow_eq zmod_int)

lemma int_root: "int (root a) = (int a ^ ((p448 - 3) div 4)) mod int p448"
  by (simp add: root_def int_gf_pow)

lemma int_decode_u: "int (decode_u y) = ((int y)\<^sup>2 - 1) mod int p448"
proof -
  have "int (decode_u y) = ((int y * int y) mod int p448 - 1) mod int p448"
    by (simp add: decode_u_def int_gf_sub int_square)
  then show ?thesis by (simp add: mod_simps power2_eq_square)
qed

lemma int_decode_v: "int (decode_v y) = (- 39081 * (int y)\<^sup>2 - 1) mod int p448"
proof -
  have "int (decode_v y) =
      ((((- int (39081 mod p448)) mod int p448) * ((int y * int y) mod int p448)) mod int p448 - 1)
        mod int p448"
    by (simp add: decode_v_def Let_def int_gf_sub int_gf_mul int_square int_gf_neg
                  Gf448Elem_of_u64_def MINUS_D_def)
  also have "\<dots> = (- 39081 * (int y)\<^sup>2 - 1) mod int p448"
    by (simp add: mod_simps power2_eq_square zmod_int)
  finally show ?thesis .
qed

lemma int_decode_maybe_x:
  "int (decode_maybe_x y) =
     (((int y)\<^sup>2 - 1) ^ 3 * (- 39081 * (int y)\<^sup>2 - 1)
       * ((((int y)\<^sup>2 - 1) ^ 5 * (- 39081 * (int y)\<^sup>2 - 1) ^ 3) ^ ((p448 - 3) div 4)))
     mod int p448"
proof -
  define U where "U = (int y)\<^sup>2 - 1"
  define V where "V = - 39081 * (int y)\<^sup>2 - 1"
  define P where "P = int p448"
  have u: "int (decode_u y) = U mod P" and v: "int (decode_v y) = V mod P"
    by (simp_all add: int_decode_u int_decode_v U_def V_def P_def)
  have "int (decode_maybe_x y) =
      ((U * (U * U)) * V * ((((U * U) * (U * U)) * U * (V * V) * V) ^ ((p448 - 3) div 4))) mod P"
    unfolding decode_maybe_x_def Let_def int_gf_mul int_root int_square u v P_def [symmetric]
    by (simp add: mod_simps pow_mod_in_prod)
  also have "(U * (U * U)) = U ^ 3"
    by (simp add: power3_eq_cube)
  also have "(((U * U) * (U * U)) * U * (V * V) * V) = U ^ 5 * V ^ 3"
    by (simp add: power3_eq_cube numeral_eq_Suc)
  finally show ?thesis unfolding U_def V_def P_def .
qed

lemma int_spec_candidate_x:
  "int (spec_candidate_x y) =
     (((int y)\<^sup>2 - 1) * (- 39081 * (int y)\<^sup>2 - 1)
       * ((((int y)\<^sup>2 - 1) ^ 5 * (- 39081 * (int y)\<^sup>2 - 1) ^ 3) ^ ((p448 - 3) div 4)))
     mod int p448"
proof -
  define U where "U = (int y)\<^sup>2 - 1"
  define V where "V = - 39081 * (int y)\<^sup>2 - 1"
  define P where "P = int p448"
  have u: "int (decode_u y) = U mod P" and v: "int (decode_v y) = V mod P"
    by (simp_all add: int_decode_u int_decode_v U_def V_def P_def)
  have "int (spec_candidate_x y) = (U * V * ((U ^ 5 * V ^ 3) ^ ((p448 - 3) div 4))) mod P"
    unfolding spec_candidate_x_def Let_def int_gf_mul int_gf_pow u v P_def [symmetric]
    by (simp add: mod_simps pow_mod_in_prod)
  then show ?thesis unfolding U_def V_def P_def .
qed

lemma coprime_bezout: "s * k = t * n + 1 \<Longrightarrow> coprime (n::nat) k"
  by (metis coprime_add_one_left coprime_commute coprime_mult_left_iff coprime_mult_right_iff mult.commute)

lemma coprime_p448_504: "coprime p448 504"
proof (rule coprime_bezout)
  show "693669496797989909432985618242321787746233123989285688482930130567211368746423614409040993172744878159469748861402360259259389973876540 * 504 = 481 * p448 + 1"
    by (simp add: p448_def)
qed

lemma coprime_p448_351730: "coprime p448 351730"
proof (rule coprime_bezout)
  show "49535299974668048711676118041916688064683527299450434205235838752902675684430396474755089738267919945669009323728012484524531319472999 * 351730 = 23971 * p448 + 1"
    by (simp add: p448_def)
qed

text \<open>
  Claim C4 as stated fails.  For \<open>y = 3\<close> (so \<open>u = 8\<close> and \<open>v = -351730\<close>) the candidate
  root that \<^verbatim>\<open>Ed448Point::decode\<close> computes differs from \<open>(u v) (u^5 v^3)^((p-3)/4)\<close>:
  the two differ by the factor \<open>u^2 = 64\<close>, and \<open>u\<close>, \<open>v\<close> are invertible modulo \<open>p\<close>.
\<close>
theorem decode_candidate_counterexample: "decode_maybe_x 3 \<noteq> spec_candidate_x 3"
proof
  assume eq: "decode_maybe_x 3 = spec_candidate_x 3"
  define P where "P = int p448"
  define V :: int where "V = - 351730"
  define W :: int where "W = (8 ^ 5 * V ^ 3) ^ ((p448 - 3) div 4)"
  have "int (decode_maybe_x 3) = int (spec_candidate_x 3)"
    using eq by simp
  then have "(8 ^ 3 * V * W) mod P = (8 * V * W) mod P"
    unfolding int_decode_maybe_x int_spec_candidate_x by (simp add: V_def W_def P_def)
  then have "P dvd 8 ^ 3 * V * W - 8 * V * W"
    by (simp add: mod_eq_dvd_iff)
  moreover have "(8::int) ^ 3 * V * W - 8 * V * W = 504 * V * W"
    by simp
  ultimately have d: "P dvd 504 * V * W"
    by (simp only:)
  have c504: "coprime P 504"
    using coprime_p448_504 unfolding P_def by (metis coprime_int_iff of_nat_numeral)
  have cV: "coprime P V"
    using coprime_p448_351730 unfolding P_def V_def
    by (metis coprime_int_iff coprime_minus_right_iff of_nat_numeral)
  have "coprime P (8 * 63)"
    using c504 by simp
  then have c8: "coprime P 8"
    by (simp only: coprime_mult_right_iff)
  have c85: "coprime P (8 ^ 5)"
    by (meson c8 coprime_power_right_iff)
  have cV3: "coprime P (V ^ 3)"
    by (meson cV coprime_power_right_iff)
  have cW: "coprime P W"
    unfolding W_def by (meson c85 cV3 coprime_mult_right_iff coprime_power_right_iff)
  have "coprime P (504 * V * W)"
    using c504 cV cW by simp
  with d have "is_unit P"
    by (metis coprime_absorb_left)
  then show False
    using p448_gt by (simp add: P_def)
qed

text \<open>
  Claim C4, amended.  For every \<open>y\<close> the candidate root of \<^verbatim>\<open>Ed448Point::decode\<close> is
  \<open>x = (u^3 v) (u^5 v^3)^((p-3)/4)\<close> in GF(p), with \<open>u = y^2 - 1\<close> and
  \<open>v = d y^2 - 1\<close>, \<open>d = -39081\<close>.
\<close>
theorem decode_candidate_formula:
  "(let u = (int y)\<^sup>2 - 1;
        v = - 39081 * (int y)\<^sup>2 - 1
    in int (decode_maybe_x y) = (u ^ 3 * v * (u ^ 5 * v ^ 3) ^ ((p448 - 3) div 4)) mod int p448)"
  unfolding Let_def by (rule int_decode_maybe_x)

theorem decode_candidate_formula_witness: "decode_maybe_x 1 = 0"
  using decode_candidate_formula [of 1] by simp

subsection \<open>Point decoding: the rejections and the round trip\<close>

lemma nat_le_le_nat: "nat_le (length bs) (le_nat bs) = bs"
proof (induction bs)
  case Nil
  then show ?case by simp
next
  case (Cons b bs)
  have lt: "unat b < 256"
    using unsigned_less [of b, where ?'a = nat] by simp
  then have "(unat b + 256 * le_nat bs) mod 256 = unat b"
    and "(unat b + 256 * le_nat bs) div 256 = le_nat bs"
    by simp_all
  then show ?case using Cons by simp
qed

lemma low7_zero:
  fixes x :: u8
  assumes "x AND 0x7F = 0"
  shows "push_bit 7 (if x \<noteq> 0 then 1 else 0) = x"
proof -
  have nb: "\<not> bit x k" if "k < 7" for k
  proof -
    have "bit (0x7F :: u8) k"
      using that by (auto simp: less_Suc_eq numeral_eq_Suc bit_Suc bit_0)
    moreover have "\<not> bit (x AND 0x7F) k"
      by (simp add: assms)
    ultimately show ?thesis
      by (simp add: bit_and_iff)
  qed
  have b7: "bit x 7 \<longleftrightarrow> x \<noteq> 0"
  proof
    assume "bit x 7" then show "x \<noteq> 0" by auto
  next
    assume "x \<noteq> 0"
    then obtain k where k: "bit x k"
      by (auto simp: bit_eq_iff)
    then have "k < 8" by (auto dest: bit_imp_le_length)
    with k nb [of k] have "k = 7" by (cases "k < 7") auto
    with k show "bit x 7" by simp
  qed
  show ?thesis
  proof (rule bit_word_eqI)
    fix n assume "n < LENGTH(8)"
    then have n: "n < 8" by simp
    show "bit (push_bit 7 (if x \<noteq> 0 then 1 else 0 :: u8)) n = bit x n"
    proof (cases "n = 7")
      case True
      then show ?thesis using b7 by (simp add: bit_push_bit_iff)
    next
      case False
      then have "n < 7" using n by simp
      then show ?thesis using nb [of n] by (simp add: bit_push_bit_iff)
    qed
  qed
qed


lemma odd_p448: "odd p448"
  by (simp add: p448_def)

lemma gf_div_one: "a < p448 \<Longrightarrow> gf_div a 1 = a"
  using p448_gt by (simp add: gf_div_def inverse_gf_def gf_pow_eq gf_mul_def)

lemma gf_mul_lt: "gf_mul a b < p448"
  using p448_gt by (simp add: gf_mul_def)

lemma decode_maybe_x_lt: "decode_maybe_x y < p448"
  by (simp add: decode_maybe_x_def Let_def gf_mul_lt)

lemma gf_neg_lt: "gf_neg a < p448"
  using p448_gt by (simp add: gf_neg_def)

lemma odd_gf_neg: "a < p448 \<Longrightarrow> a \<noteq> 0 \<Longrightarrow> odd (gf_neg a) \<longleftrightarrow> even a"
  using odd_p448 by (simp add: gf_neg_def)

text \<open>The rejections of \<^verbatim>\<open>Ed448Point::decode\<close>, with the curve check as the source performs
  it: on the candidate root.\<close>
lemma decode_rejects_iff:
  "decode enc = Inl Decoding_Error \<longleftrightarrow>
     (last enc AND 0x7F) \<noteq> 0
     \<or> \<not> le_nat (take 56 enc) < p448
     \<or> gf_mul (decode_v (le_nat (take 56 enc))) (square (decode_maybe_x (le_nat (take 56 enc))))
          \<noteq> decode_u (le_nat (take 56 enc))
     \<or> (decode_maybe_x (le_nat (take 56 enc)) = 0 \<and> last enc \<noteq> 0)"
proof (cases "le_nat (take 56 enc) < p448")
  case True
  then have y: "Gf448Elem_of_bytes (take 56 enc) = le_nat (take 56 enc)"
    by (simp add: Gf448Elem_of_bytes_def)
  have z: "is_zero (decode_maybe_x y) \<longleftrightarrow> decode_maybe_x y = 0" for y
    using decode_maybe_x_lt [of y] by (simp add: is_zero_def)
  show ?thesis
    using True
    by (simp add: decode_def Let_def bytes_are_canonical_representation_def y z)
next
  case False
  then show ?thesis
    by (simp add: decode_def Let_def bytes_are_canonical_representation_def)
qed

text \<open>Whenever a root exists at all, it is the candidate that the check is made on; so an
  encoding with no root is rejected.\<close>
lemma decode_no_root_rejected:
  assumes "\<not> (\<exists>x. gf_mul (decode_v (le_nat (take 56 enc))) (square x) = decode_u (le_nat (take 56 enc)))"
  shows "decode enc = Inl Decoding_Error"
  using assms unfolding decode_rejects_iff by blast

text \<open>A decoded point encodes to the input.\<close>
lemma decode_encode:
  assumes len: "length enc = 57" and dec: "decode enc = Inr P"
  shows "encode P = enc"
proof -
  define y where "y = le_nat (take 56 enc)"
  define m where "m = decode_maybe_x y"
  define xd where "xd = (last enc \<noteq> 0)"
  have nrej: "decode enc \<noteq> Inl Decoding_Error"
    using dec by simp
  then have a: "(last enc AND 0x7F) = 0" and b: "y < p448"
    and d: "\<not> (m = 0 \<and> xd)"
    unfolding decode_rejects_iff y_def m_def xd_def by auto
  have yb: "Gf448Elem_of_bytes (take 56 enc) = y"
    using b by (simp add: Gf448Elem_of_bytes_def y_def)
  have mlt: "m < p448"
    unfolding m_def by (rule decode_maybe_x_lt)
  have P: "P = Ed448Point_xy (if odd m = xd then m else gf_neg m) y"
    using dec a b mlt
    by (auto simp: decode_def Let_def bytes_are_canonical_representation_def yb y_def [symmetric]
                   m_def [symmetric] xd_def [symmetric] is_odd_def split: if_splits)
  define x where "x = (if odd m = xd then m else gf_neg m)"
  have xlt: "x < p448"
    unfolding x_def using mlt gf_neg_lt by simp
  have xodd: "odd x \<longleftrightarrow> xd"
  proof (cases "odd m = xd")
    case True
    then show ?thesis by (simp add: x_def)
  next
    case False
    then have "m \<noteq> 0" using d by (metis even_zero)
    then show ?thesis
      using False mlt by (simp add: x_def odd_gf_neg)
  qed
  have py: "pt_y P = y"
    using b by (simp add: P pt_y_def Ed448Point_xy_def gf_div_one [unfolded One_nat_def])
  have px: "pt_x P = x"
    using xlt by (simp add: P pt_x_def Ed448Point_xy_def gf_div_one [unfolded One_nat_def] x_def)
  have yb: "gf_to_bytes y = take 56 enc"
  proof -
    have "nat_le (length (take 56 enc)) (le_nat (take 56 enc)) = take 56 enc"
      by (rule nat_le_le_nat)
    then show ?thesis
      using b len by (simp add: gf_to_bytes_def y_def)
  qed
  have lb: "push_bit 7 (if is_odd x then 1 else 0) = last enc"
    using low7_zero [OF a] xlt xodd by (simp add: is_odd_def xd_def)
  have "enc = take 56 enc @ [last enc]"
    using len by (metis append_butlast_last_id butlast_conv_take diff_Suc_1 length_0_conv
        numeral_eq_Suc pred_numeral_simps(3) zero_neq_numeral eval_nat_numeral(3) nat.simps(3) add_diff_cancel_right' numeral_plus_one)
  then show ?thesis
    unfolding encode_def py px yb lb by simp
qed
section \<open>AES: tables, rounds, key schedule\<close>

subsection \<open>Words as four bytes\<close>

text \<open>
  The bits of \<^verbatim>\<open>make_uint32\<close> and \<^verbatim>\<open>get_byte\<close>, and from them the behaviour of the
  byte operations under XOR and rotation.
\<close>

lemma bit_u8_out: "8 \<le> n \<Longrightarrow> bit (w :: u8) n = False"
  by (auto dest: bit_imp_le_length)

lemma bit_make_uint32:
  "bit (make_uint32 a b c d) n \<longleftrightarrow>
     (if n < 8 then bit d n
      else if n < 16 then bit c (n - 8)
      else if n < 24 then bit b (n - 16)
      else bit a (n - 24))"
proof -
  consider "n < 8" | "8 \<le> n" "n < 16" | "16 \<le> n" "n < 24" | "24 \<le> n" "n < 32" | "32 \<le> n"
    by linarith
  then show ?thesis
  proof cases
    case 1
    then show ?thesis
      by (auto simp: make_uint32_def bit_or_iff bit_push_bit_iff bit_ucast_iff)
  next
    case 2
    then show ?thesis
      by (auto simp: make_uint32_def bit_or_iff bit_push_bit_iff bit_ucast_iff bit_u8_out)
  next
    case 3
    then show ?thesis
      by (auto simp: make_uint32_def bit_or_iff bit_push_bit_iff bit_ucast_iff bit_u8_out)
  next
    case 4
    then show ?thesis
      by (auto simp: make_uint32_def bit_or_iff bit_push_bit_iff bit_ucast_iff bit_u8_out)
  next
    case 5
    then show ?thesis
      by (auto simp: make_uint32_def bit_or_iff bit_push_bit_iff bit_ucast_iff bit_u8_out)
  qed
qed

lemma bit_get_byte:
  "bit (get_byte k w) n \<longleftrightarrow> n < 8 \<and> bit w (8 * (3 - k) + n)"
  by (simp add: get_byte_def bit_ucast_iff bit_drop_bit_eq)

lemma get_byte_make_uint32 [simp]:
  "get_byte 0 (make_uint32 a b c d) = a"
  "get_byte (Suc 0) (make_uint32 a b c d) = b"
  "get_byte 2 (make_uint32 a b c d) = c"
  "get_byte 3 (make_uint32 a b c d) = d"
  by (rule bit_word_eqI; simp add: bit_get_byte bit_make_uint32)+

lemma make_uint32_get_byte:
  "make_uint32 (get_byte 0 w) (get_byte 1 w) (get_byte 2 w) (get_byte 3 w) = w"
proof (rule bit_word_eqI)
  fix n assume "n < LENGTH(32)"
  then have n: "n < 32" by simp
  consider "n < 8" | "8 \<le> n" "n < 16" | "16 \<le> n" "n < 24" | "24 \<le> n" "n < 32"
    using n by linarith
  then show "bit (make_uint32 (get_byte 0 w) (get_byte 1 w) (get_byte 2 w) (get_byte 3 w)) n = bit w n"
    by cases (auto simp: bit_make_uint32 bit_get_byte)
qed

lemma make_uint32_xor:
  "make_uint32 a b c d XOR make_uint32 a' b' c' d' =
     make_uint32 (a XOR a') (b XOR b') (c XOR c') (d XOR d')"
  by (rule bit_word_eqI) (simp add: bit_xor_iff bit_make_uint32)

lemma bit_rotr: "bit (rotr m w) n \<longleftrightarrow> n < 32 \<and> bit w ((n + m) mod 32)"
  by (simp add: rotr_def bit_word_rotr_iff)

lemma rotr8_make_uint32: "rotr 8 (make_uint32 a b c d) = make_uint32 d a b c"
proof (rule bit_word_eqI)
  fix n assume "n < LENGTH(32)"
  then have n: "n < 32" by simp
  consider "n < 8" | "8 \<le> n" "n < 16" | "16 \<le> n" "n < 24" | "24 \<le> n" "n < 32"
    using n by linarith
  then show "bit (rotr 8 (make_uint32 a b c d)) n = bit (make_uint32 d a b c) n"
  proof cases
    case 4
    then have "(n + 8) mod 32 = n - 24"
      by (simp add: mod_if)
    with 4 show ?thesis by (auto simp: bit_rotr bit_make_uint32)
  qed (auto simp: bit_rotr bit_make_uint32)
qed

lemma rotr16_make_uint32: "rotr 16 (make_uint32 a b c d) = make_uint32 c d a b"
proof -
  have "rotr 16 (make_uint32 a b c d) = rotr 8 (rotr 8 (make_uint32 a b c d))"
    by (simp add: rotr_def word_rotr_word_rotr_eq)
  then show ?thesis by (simp add: rotr8_make_uint32)
qed

lemma rotr24_make_uint32: "rotr 24 (make_uint32 a b c d) = make_uint32 b c d a"
proof -
  have "rotr 24 (make_uint32 a b c d) = rotr 8 (rotr 16 (make_uint32 a b c d))"
    by (simp add: rotr_def word_rotr_word_rotr_eq)
  then show ?thesis by (simp add: rotr8_make_uint32 rotr16_make_uint32)
qed

lemma te_byte: "ucast (drop_bit 8 (make_uint32 a b c d)) = c"
proof -
  have "ucast (drop_bit 8 (make_uint32 a b c d)) = get_byte 2 (make_uint32 a b c d)"
    by (simp add: get_byte_def)
  then show ?thesis by simp
qed

subsection \<open>Multiplication by \<open>x\<close> in GF(2^8) is linear\<close>

lemma drop_bit7: "drop_bit 7 (x::u8) = (if bit x 7 then 1 else 0)"
proof (rule bit_word_eqI)
  fix n assume "n < LENGTH(8)"
  show "bit (drop_bit 7 x) n = bit (if bit x 7 then 1 else 0 :: u8) n"
  proof (cases "n = 0")
    case True
    then show ?thesis by (simp add: bit_drop_bit_eq)
  next
    case False
    then have "8 \<le> 7 + n" by simp
    then have "\<not> bit x (7 + n)" by (simp add: bit_u8_out)
    with False show ?thesis by (simp add: bit_drop_bit_eq bit_1_iff)
  qed
qed

lemma xtime_xor: "xtime (a XOR b) = xtime a XOR xtime b"
  by (simp add: xtime_def push_bit_xor drop_bit7 bit_xor_iff ac_simps)

lemma xtime3_xor: "xtime3 (a XOR b) = xtime3 a XOR xtime3 b"
  by (simp add: xtime3_def xtime_xor ac_simps)

lemma xtime_0: "xtime 0 = 0"
  by (simp add: xtime_def)

lemma make_uint32_0: "make_uint32 0 0 0 0 = 0"
  by (simp add: make_uint32_def)

lemma InvMixColumn_xor: "InvMixColumn (a XOR b) = InvMixColumn a XOR InvMixColumn b"
  by (simp add: InvMixColumn_def Let_def xtime_xor make_uint32_xor ac_simps)

lemma InvMixColumn_0: "InvMixColumn 0 = 0"
  by (simp add: InvMixColumn_def xtime_0 make_uint32_0)

subsection \<open>The tables\<close>

text \<open>
  \<open>SD\<close> inverts \<open>SE\<close>: checked entry by entry.  A T-table round is the round key XORed
  with the mixed column of four substituted bytes.
\<close>

lemma unat_u8_lt: "unat (x :: u8) < 256"
  using unsigned_less [of x, where ?'a = nat] by simp

lemma upt_step: "i < n \<Longrightarrow> [i..<n] = i # [i + 1..<n]"
  by (simp add: upt_conv_Cons)

lemma sd_se_table: "list_all (\<lambda>i. SD ! unat (SE ! i) = of_nat i) [0..<256]"
  by (simp add: upt_step SE_def SD_def)

lemma SD_SE: "SD ! unat (SE ! unat (x :: u8)) = x"
proof -
  have "unat x \<in> set [0..<256]"
    using unat_u8_lt [of x] by simp
  with sd_se_table have "SD ! unat (SE ! unat x) = of_nat (unat x)"
    unfolding list_all_iff by blast
  then show ?thesis by simp
qed

lemma AES_TE_nth:
  "AES_TE ! unat (x :: u8) =
     make_uint32 (xtime (SE ! unat x)) (SE ! unat x) (SE ! unat x) (xtime3 (SE ! unat x))"
  using unat_u8_lt [of x] by (simp add: AES_TE_def Let_def)

lemma AES_TD_nth: "AES_TD ! unat (x :: u8) = InvMixColumn (SD ! unat x)"
  using unat_u8_lt [of x] by (simp add: AES_TD_def)

lemma AES_T_TE: "AES_T AES_TE K a b c d = K XOR mix_word (sub_word a b c d)"
  by (simp add: AES_T_def AES_TE_nth mix_word_def sub_word_def TE_word_def xor.assoc)

lemma AES_T_TD: "AES_T AES_TD K a b c d = K XOR inv_mix_word (inv_sub_word a b c d)"
  by (simp add: AES_T_def AES_TD_nth inv_mix_word_def inv_sub_word_def Let_def xor.assoc)

subsection \<open>The column mixing and its inverse\<close>

lemma mix_word_bytes:
  "mix_word (make_uint32 a b c d) =
     make_uint32 (xtime a XOR xtime3 b XOR c XOR d) (a XOR xtime b XOR xtime3 c XOR d)
                 (a XOR b XOR xtime c XOR xtime3 d) (xtime3 a XOR b XOR c XOR xtime d)"
  by (simp add: mix_word_def TE_word_def rotr8_make_uint32 rotr16_make_uint32 rotr24_make_uint32
                make_uint32_xor)

lemma get_byte_xor: "get_byte k (x XOR y) = get_byte k x XOR get_byte k y"
  by (rule bit_word_eqI) (auto simp: bit_get_byte bit_xor_iff)

lemma rotr_xor: "rotr n (x XOR y) = rotr n x XOR rotr n y"
  by (simp add: rotr_def word_rot_logs)

lemma inv_mix_word_xor: "inv_mix_word (x XOR y) = inv_mix_word x XOR inv_mix_word y"
  by (simp add: inv_mix_word_def Let_def get_byte_xor InvMixColumn_xor rotr_xor ac_simps)

lemma inv_mix_word_bytes:
  "inv_mix_word (make_uint32 a b c d) =
     InvMixColumn a XOR rotr 8 (InvMixColumn b) XOR rotr 16 (InvMixColumn c)
       XOR rotr 24 (InvMixColumn d)"
  by (simp add: inv_mix_word_def Let_def)

lemma inv_mix_mix_bytes:
  "inv_mix_word (mix_word (make_uint32 a b c d)) = make_uint32 a b c d"
  unfolding mix_word_bytes inv_mix_word_bytes
  by (simp add: InvMixColumn_def Let_def rotr8_make_uint32 rotr16_make_uint32 rotr24_make_uint32
                make_uint32_xor xtime_xor xtime3_def ac_simps)

lemma inv_mix_mix: "inv_mix_word (mix_word w) = w"
  using inv_mix_mix_bytes [of "get_byte 0 w" "get_byte 1 w" "get_byte 2 w" "get_byte 3 w"]
  by (simp only: make_uint32_get_byte)

subsection \<open>The round loops as sequences of rounds\<close>

lemma enc_rounds_step:
  "enc_rounds EK r A =
     (if r < length EK then enc_rounds EK (r + 8) (enc_round EK (r + 4) (enc_round EK r A)) else A)"
proof -
  obtain a b c d where A: "A = (a, b, c, d)"
    by (cases A) auto
  show ?thesis
    unfolding A
    by (subst enc_rounds.simps)
       (simp add: enc_round_def key4_def xor4_def map4_def sub_shift_def AES_T_TE Let_def
                  add.assoc add.commute add.left_commute)
qed

lemma dec_rounds_step:
  "dec_rounds DK r A =
     (if r < length DK then dec_rounds DK (r + 8) (dec_round DK (r + 4) (dec_round DK r A)) else A)"
proof -
  obtain a b c d where A: "A = (a, b, c, d)"
    by (cases A) auto
  show ?thesis
    unfolding A
    by (subst dec_rounds.simps)
       (simp add: dec_round_def key4_def xor4_def map4_def inv_sub_shift_def AES_T_TD Let_def
                  add.assoc add.commute add.left_commute)
qed

lemma enc_rounds_seq:
  "length EK = 8 * m + 8 \<Longrightarrow> j \<le> m \<Longrightarrow>
   enc_rounds EK (8 + 8 * j) (enc_seq EK S0 (2 * j + 1)) = enc_seq EK S0 (2 * m + 1)"
proof (induction "m - j" arbitrary: j)
  case 0
  then have "j = m" by simp
  then show ?case using 0 by (subst enc_rounds_step) simp
next
  case (Suc k)
  then have lt: "j < m" and k: "k = m - Suc j" by simp_all
  have r: "8 + 8 * j < length EK" using Suc.prems lt by simp
  have "enc_round EK (8 + 8 * j + 4) (enc_round EK (8 + 8 * j) (enc_seq EK S0 (2 * j + 1)))
          = enc_seq EK S0 (2 * Suc j + 1)"
    by (simp add: algebra_simps)
  moreover have "enc_rounds EK (8 + 8 * Suc j) (enc_seq EK S0 (2 * Suc j + 1)) = enc_seq EK S0 (2 * m + 1)"
    using Suc.hyps(1) [OF k Suc.prems(1)] lt by simp
  ultimately show ?case
    using r by (subst enc_rounds_step) (simp add: algebra_simps)
qed

lemma dec_rounds_seq:
  "length DK = 8 * m + 8 \<Longrightarrow> j \<le> m \<Longrightarrow>
   dec_rounds DK (8 + 8 * j) (dec_seq DK D0 (2 * j + 1)) = dec_seq DK D0 (2 * m + 1)"
proof (induction "m - j" arbitrary: j)
  case 0
  then have "j = m" by simp
  then show ?case using 0 by (subst dec_rounds_step) simp
next
  case (Suc k)
  then have lt: "j < m" and k: "k = m - Suc j" by simp_all
  have r: "8 + 8 * j < length DK" using Suc.prems lt by simp
  have "dec_round DK (8 + 8 * j + 4) (dec_round DK (8 + 8 * j) (dec_seq DK D0 (2 * j + 1)))
          = dec_seq DK D0 (2 * Suc j + 1)"
    by (simp add: algebra_simps)
  moreover have "dec_rounds DK (8 + 8 * Suc j) (dec_seq DK D0 (2 * Suc j + 1)) = dec_seq DK D0 (2 * m + 1)"
    using Suc.hyps(1) [OF k Suc.prems(1)] lt by simp
  ultimately show ?case
    using r by (subst dec_rounds_step) (simp add: algebra_simps)
qed

subsection \<open>A decryption round undoes an encryption round\<close>

text \<open>
  With the decryption round key the inverse column mixing of the encryption round key,
  a decryption round maps the substituted state after an encryption round to the
  substituted state before it.
\<close>

lemma inv_sub_shift_sub_shift: "inv_sub_shift (sub_shift A) = A"
  by (cases A)
     (simp add: inv_sub_shift_def sub_shift_def inv_sub_word_def sub_word_def SD_SE
                make_uint32_get_byte [simplified])

lemma xor4_cancel: "xor4 K (xor4 K A) = A"
  by (cases K, cases A) (simp add: xor4_def)

lemma map4_xor4:
  "xor4 (map4 inv_mix_word K) (map4 inv_mix_word A) = map4 inv_mix_word (xor4 K A)"
  by (cases K, cases A) (simp add: xor4_def map4_def inv_mix_word_xor)

lemma map4_inv_mix_mix: "map4 inv_mix_word (map4 mix_word A) = A"
  by (cases A) (simp add: map4_def inv_mix_mix)

lemma round_inverse:
  assumes "key4 DK r' = map4 inv_mix_word (key4 EK r)"
  shows "dec_round DK r' (sub_shift (enc_round EK r A)) = sub_shift A"
  by (simp add: dec_round_def assms inv_sub_shift_sub_shift map4_xor4 enc_round_def xor4_cancel
                map4_inv_mix_mix)

lemma dec_seq_mirror:
  assumes keys: "\<And>i. 1 \<le> i \<Longrightarrow> i \<le> n \<Longrightarrow>
                   key4 DK (4 * i) = map4 inv_mix_word (key4 EK (4 * (Suc n - i)))"
  shows "i \<le> n \<Longrightarrow> dec_seq DK (sub_shift (enc_seq EK S0 n)) i = sub_shift (enc_seq EK S0 (n - i))"
proof (induction i)
  case 0
  then show ?case by simp
next
  case (Suc i)
  then have IH: "dec_seq DK (sub_shift (enc_seq EK S0 n)) i = sub_shift (enc_seq EK S0 (n - i))"
    by simp
  have n: "n - i = Suc (n - Suc i)" using Suc.prems by simp
  have "Suc n - Suc i = Suc (n - Suc i)"
    using Suc.prems by simp
  then have k: "key4 DK (4 * Suc i) = map4 inv_mix_word (key4 EK (4 * Suc (n - Suc i)))"
    using keys [of "Suc i"] Suc.prems by simp
  show ?case
    unfolding dec_seq.simps IH
    by (subst n) (simp only: enc_seq.simps round_inverse [OF k])
qed

subsection \<open>One block\<close>

lemma TE_byte: "ucast (drop_bit 8 (AES_TE ! unat (x :: u8))) = SE ! unat x"
  by (simp add: AES_TE_nth te_byte)

lemma xor4_commute: "xor4 A B = xor4 B A"
  by (cases A, cases B) (simp add: xor4_def ac_simps)

lemma store_be_xor: "store_be (x XOR y) = map2 (XOR) (store_be x) (store_be y)"
  by (simp add: store_be_def get_byte_xor)

lemma store_be_sub_word:
  "store_be (sub_word a b c d) =
     [SE ! unat (get_byte 0 a), SE ! unat (get_byte 1 b), SE ! unat (get_byte 2 c),
      SE ! unat (get_byte 3 d)]"
  by (simp add: store_be_def sub_word_def)

lemma store_be_inv_sub_word:
  "store_be (inv_sub_word a b c d) =
     [SD ! unat (get_byte 0 a), SD ! unat (get_byte 1 b), SD ! unat (get_byte 2 c),
      SD ! unat (get_byte 3 d)]"
  by (simp add: store_be_def inv_sub_word_def)

lemma enc_first_round:
  "(AES_T AES_TE (EK ! 4) T0 T1 T2 T3, AES_T AES_TE (EK ! 5) T1 T2 T3 T0,
    AES_T AES_TE (EK ! 6) T2 T3 T0 T1, AES_T AES_TE (EK ! 7) T3 T0 T1 T2)
     = enc_round EK 4 (T0, T1, T2, T3)"
  by (simp add: enc_round_def key4_def xor4_def map4_def sub_shift_def AES_T_TE)

lemma enc_whitening:
  "((load_be input (4 * i) XOR EK ! 0) XOR 0, load_be input (4 * i + 1) XOR EK ! 1,
    load_be input (4 * i + 2) XOR EK ! 2, load_be input (4 * i + 3) XOR EK ! 3)
     = xor4 (load4 input i) (key4 EK 0)"
  by (simp add: load4_def key4_def xor4_def numeral_2_eq_2)

lemma enc_last_round:
  "[ucast (drop_bit 8 (AES_TE ! unat (get_byte 0 B0))) XOR bytes4 (k0, k1, k2, k3) ! 0,
    ucast (drop_bit 8 (AES_TE ! unat (get_byte 1 B1))) XOR bytes4 (k0, k1, k2, k3) ! 1,
    ucast (drop_bit 8 (AES_TE ! unat (get_byte 2 B2))) XOR bytes4 (k0, k1, k2, k3) ! 2,
    ucast (drop_bit 8 (AES_TE ! unat (get_byte 3 B3))) XOR bytes4 (k0, k1, k2, k3) ! 3,
    ucast (drop_bit 8 (AES_TE ! unat (get_byte 0 B1))) XOR bytes4 (k0, k1, k2, k3) ! 4,
    ucast (drop_bit 8 (AES_TE ! unat (get_byte 1 B2))) XOR bytes4 (k0, k1, k2, k3) ! 5,
    ucast (drop_bit 8 (AES_TE ! unat (get_byte 2 B3))) XOR bytes4 (k0, k1, k2, k3) ! 6,
    ucast (drop_bit 8 (AES_TE ! unat (get_byte 3 B0))) XOR bytes4 (k0, k1, k2, k3) ! 7,
    ucast (drop_bit 8 (AES_TE ! unat (get_byte 0 B2))) XOR bytes4 (k0, k1, k2, k3) ! 8,
    ucast (drop_bit 8 (AES_TE ! unat (get_byte 1 B3))) XOR bytes4 (k0, k1, k2, k3) ! 9,
    ucast (drop_bit 8 (AES_TE ! unat (get_byte 2 B0))) XOR bytes4 (k0, k1, k2, k3) ! 10,
    ucast (drop_bit 8 (AES_TE ! unat (get_byte 3 B1))) XOR bytes4 (k0, k1, k2, k3) ! 11,
    ucast (drop_bit 8 (AES_TE ! unat (get_byte 0 B3))) XOR bytes4 (k0, k1, k2, k3) ! 12,
    ucast (drop_bit 8 (AES_TE ! unat (get_byte 1 B0))) XOR bytes4 (k0, k1, k2, k3) ! 13,
    ucast (drop_bit 8 (AES_TE ! unat (get_byte 2 B1))) XOR bytes4 (k0, k1, k2, k3) ! 14,
    ucast (drop_bit 8 (AES_TE ! unat (get_byte 3 B2))) XOR bytes4 (k0, k1, k2, k3) ! 15]
     = bytes4 (xor4 (k0, k1, k2, k3) (sub_shift (B0, B1, B2, B3)))"
  by (simp add: bytes4_def xor4_def sub_shift_def store_be_def get_byte_xor sub_word_def TE_byte
                ac_simps)

lemma enc_block_alt:
  "enc_block 0 EK (bytes4 KR) input i =
     bytes4 (xor4 KR (sub_shift
       (enc_rounds EK 8 (enc_round EK 4 (xor4 (load4 input i) (key4 EK 0))))))"
proof -
  obtain k0 k1 k2 k3 where KR: "KR = (k0, k1, k2, k3)"
    by (cases KR) auto
  obtain B0 B1 B2 B3 where
    B: "enc_rounds EK 8 (enc_round EK 4 (xor4 (load4 input i) (key4 EK 0))) = (B0, B1, B2, B3)"
    by (cases "enc_rounds EK 8 (enc_round EK 4 (xor4 (load4 input i) (key4 EK 0)))") auto
  show ?thesis
    unfolding enc_block_def Let_def KR enc_first_round enc_whitening B prod.case
    by (rule enc_last_round)
qed

lemma enc_block_eq:
  assumes len: "length EK = 8 * m + 8" and ME: "ME = bytes4 KR"
  shows "enc_block 0 EK ME input i =
           bytes4 (xor4 KR (sub_shift (enc_seq EK (xor4 (load4 input i) (key4 EK 0)) (2 * m + 1))))"
proof -
  define S0 where "S0 = xor4 (load4 input i) (key4 EK 0)"
  have "enc_rounds EK (8 + 8 * 0) (enc_seq EK S0 (2 * 0 + 1)) = enc_seq EK S0 (2 * m + 1)"
    by (rule enc_rounds_seq [OF len]) simp
  then have "enc_rounds EK 8 (enc_round EK 4 S0) = enc_seq EK S0 (2 * m + 1)"
    by simp
  then show ?thesis
    unfolding ME enc_block_alt S0_def by simp
qed

lemma dec_first_round:
  "(AES_T AES_TD (DK ! 4) T0 T3 T2 T1, AES_T AES_TD (DK ! 5) T1 T0 T3 T2,
    AES_T AES_TD (DK ! 6) T2 T1 T0 T3, AES_T AES_TD (DK ! 7) T3 T2 T1 T0)
     = dec_round DK 4 (T0, T1, T2, T3)"
  by (simp add: dec_round_def key4_def xor4_def map4_def inv_sub_shift_def AES_T_TD)

lemma dec_whitening:
  "((load_be input (4 * i) XOR DK ! 0) XOR 0, load_be input (4 * i + 1) XOR DK ! 1,
    load_be input (4 * i + 2) XOR DK ! 2, load_be input (4 * i + 3) XOR DK ! 3)
     = xor4 (load4 input i) (key4 DK 0)"
  by (simp add: load4_def key4_def xor4_def numeral_2_eq_2)

lemma dec_last_round:
  "[SD ! unat (get_byte 0 B0) XOR bytes4 (k0, k1, k2, k3) ! 0,
    SD ! unat (get_byte 1 B3) XOR bytes4 (k0, k1, k2, k3) ! 1,
    SD ! unat (get_byte 2 B2) XOR bytes4 (k0, k1, k2, k3) ! 2,
    SD ! unat (get_byte 3 B1) XOR bytes4 (k0, k1, k2, k3) ! 3,
    SD ! unat (get_byte 0 B1) XOR bytes4 (k0, k1, k2, k3) ! 4,
    SD ! unat (get_byte 1 B0) XOR bytes4 (k0, k1, k2, k3) ! 5,
    SD ! unat (get_byte 2 B3) XOR bytes4 (k0, k1, k2, k3) ! 6,
    SD ! unat (get_byte 3 B2) XOR bytes4 (k0, k1, k2, k3) ! 7,
    SD ! unat (get_byte 0 B2) XOR bytes4 (k0, k1, k2, k3) ! 8,
    SD ! unat (get_byte 1 B1) XOR bytes4 (k0, k1, k2, k3) ! 9,
    SD ! unat (get_byte 2 B0) XOR bytes4 (k0, k1, k2, k3) ! 10,
    SD ! unat (get_byte 3 B3) XOR bytes4 (k0, k1, k2, k3) ! 11,
    SD ! unat (get_byte 0 B3) XOR bytes4 (k0, k1, k2, k3) ! 12,
    SD ! unat (get_byte 1 B2) XOR bytes4 (k0, k1, k2, k3) ! 13,
    SD ! unat (get_byte 2 B1) XOR bytes4 (k0, k1, k2, k3) ! 14,
    SD ! unat (get_byte 3 B0) XOR bytes4 (k0, k1, k2, k3) ! 15]
     = bytes4 (xor4 (k0, k1, k2, k3) (inv_sub_shift (B0, B1, B2, B3)))"
  by (simp add: bytes4_def xor4_def inv_sub_shift_def store_be_def get_byte_xor inv_sub_word_def
                ac_simps)

lemma dec_block_alt:
  "dec_block 0 DK (bytes4 K0) input i =
     bytes4 (xor4 K0 (inv_sub_shift
       (dec_rounds DK 8 (dec_round DK 4 (xor4 (load4 input i) (key4 DK 0))))))"
proof -
  obtain k0 k1 k2 k3 where K0: "K0 = (k0, k1, k2, k3)"
    by (cases K0) auto
  obtain B0 B1 B2 B3 where
    B: "dec_rounds DK 8 (dec_round DK 4 (xor4 (load4 input i) (key4 DK 0))) = (B0, B1, B2, B3)"
    by (cases "dec_rounds DK 8 (dec_round DK 4 (xor4 (load4 input i) (key4 DK 0)))") auto
  show ?thesis
    unfolding dec_block_def Let_def K0 dec_first_round dec_whitening B prod.case
    by (rule dec_last_round)
qed

lemma dec_block_eq:
  assumes len: "length DK = 8 * m + 8" and MD: "MD = bytes4 K0"
  shows "dec_block 0 DK MD input i =
           bytes4 (xor4 K0 (inv_sub_shift (dec_seq DK (xor4 (load4 input i) (key4 DK 0)) (2 * m + 1))))"
proof -
  define D0 where "D0 = xor4 (load4 input i) (key4 DK 0)"
  have "dec_rounds DK (8 + 8 * 0) (dec_seq DK D0 (2 * 0 + 1)) = dec_seq DK D0 (2 * m + 1)"
    by (rule dec_rounds_seq [OF len]) simp
  then have "dec_rounds DK 8 (dec_round DK 4 D0) = dec_seq DK D0 (2 * m + 1)"
    by simp
  then show ?thesis
    unfolding MD dec_block_alt D0_def by simp
qed

lemma load_be_store_be: "load_be (store_be a @ rest) 0 = a"
  by (simp add: load_be_def store_be_def make_uint32_get_byte [simplified])

lemma load4_bytes4: "load4 (bytes4 A) 0 = A"
proof -
  obtain a b c d where A: "A = (a, b, c, d)"
    by (cases A) auto
  show ?thesis
    unfolding A
    by (simp add: load4_def bytes4_def load_be_def store_be_def make_uint32_get_byte [simplified])
qed

lemma list16:
  assumes "length (B :: 'a list) = 16"
  shows "B = [B ! 0, B ! 1, B ! 2, B ! 3, B ! 4, B ! 5, B ! 6, B ! 7, B ! 8, B ! 9, B ! 10,
              B ! 11, B ! 12, B ! 13, B ! 14, B ! 15]"
  using assms by (auto simp: numeral_eq_Suc length_Suc_conv)

lemma bytes4_load4:
  assumes "length B = 16"
  shows "bytes4 (load4 B 0) = B"
  by (subst (2) list16 [OF assms])
     (simp add: load4_def bytes4_def load_be_def store_be_def numeral_2_eq_2
                get_byte_make_uint32(3) [unfolded numeral_2_eq_2])

lemma block_roundtrip:
  assumes lenE: "length EK = 8 * m + 8" and lenD: "length DK = 8 * m + 8"
    and ME: "ME = bytes4 KR" and MD: "MD = bytes4 (key4 EK 0)"
    and DK0: "key4 DK 0 = KR"
    and keys: "\<And>i. 1 \<le> i \<Longrightarrow> i \<le> 2 * m + 1 \<Longrightarrow>
                 key4 DK (4 * i) = map4 inv_mix_word (key4 EK (4 * (Suc (2 * m + 1) - i)))"
    and B: "length B = 16"
  shows "dec_block 0 DK MD (enc_block 0 EK ME B 0) 0 = B"
proof -
  define S0 where "S0 = xor4 (load4 B 0) (key4 EK 0)"
  define Sf where "Sf = enc_seq EK S0 (2 * m + 1)"
  have C: "enc_block 0 EK ME B 0 = bytes4 (xor4 KR (sub_shift Sf))"
    unfolding Sf_def S0_def by (rule enc_block_eq [OF lenE ME])
  have D0: "xor4 (load4 (bytes4 (xor4 KR (sub_shift Sf))) 0) (key4 DK 0) = sub_shift Sf"
    by (simp add: load4_bytes4 DK0 xor4_commute [of _ KR] xor4_cancel)
  have "dec_seq DK (sub_shift Sf) (2 * m + 1) = sub_shift (enc_seq EK S0 (2 * m + 1 - (2 * m + 1)))"
    unfolding Sf_def by (rule dec_seq_mirror [OF keys]) simp_all
  then have Df: "dec_seq DK (sub_shift Sf) (2 * m + 1) = sub_shift S0"
    by simp
  have "dec_block 0 DK MD (enc_block 0 EK ME B 0) 0 =
          bytes4 (xor4 (key4 EK 0) (inv_sub_shift (dec_seq DK (sub_shift Sf) (2 * m + 1))))"
    unfolding C by (simp only: dec_block_eq [OF lenD MD] D0)
  also have "\<dots> = bytes4 (load4 B 0)"
    unfolding Df inv_sub_shift_sub_shift S0_def
    by (simp add: xor4_commute [of _ "key4 EK 0"] xor4_cancel)
  also have "\<dots> = B"
    by (rule bytes4_load4 [OF B])
  finally show ?thesis .
qed

subsection \<open>The key schedule: lengths and contents\<close>

lemma foldl_length:
  "(\<And>xs i. length (f xs i) = length xs) \<Longrightarrow> length (foldl f xs js) = length xs"
  by (induction js arbitrary: xs) simp_all

lemma length_expand_inner: "length (expand_inner X i XEK) = length XEK"
  unfolding expand_inner_def by (rule foldl_length) (simp add: Let_def)

lemma length_expand_outer: "length (expand_outer X bound i XEK) = length XEK"
proof (induction X bound i XEK rule: expand_outer.induct)
  case (1 X bound i XEK)
  show ?case
  proof (cases "i < bound \<and> 0 < X")
    case True
    then show ?thesis
      using "1.IH" by (subst expand_outer.simps) (simp add: Let_def length_expand_inner)
  next
    case False
    show ?thesis by (subst expand_outer.simps) (simp only: False if_False)
  qed
qed

lemma length_reverse_keys: "length (reverse_keys rounds XEK XDK) = length XDK"
  unfolding reverse_keys_def by (rule foldl_length) (simp add: Let_def)

lemma length_inv_mix_keys: "length (inv_mix_keys len XDK) = length XDK"
  unfolding inv_mix_keys_def by (rule foldl_length) simp

lemma length_reverse_upto: "length (reverse_upto rounds XEK XDK n) = length XDK"
  unfolding reverse_upto_def by (rule foldl_length) (simp add: Let_def)

lemma reverse_upto_nth:
  "4 * n \<le> length XDK \<Longrightarrow> k < n \<Longrightarrow> j < 4 \<Longrightarrow>
   reverse_upto rounds XEK XDK n ! (4 * k + j) = XEK ! (4 * rounds - 4 * k + j)"
proof (induction n)
  case 0
  then show ?case by simp
next
  case (Suc n)
  let ?prev = "reverse_upto rounds XEK XDK n"
  have len: "length ?prev = length XDK"
    by (rule length_reverse_upto)
  have step: "reverse_upto rounds XEK XDK (Suc n) =
      ?prev[4 * n := XEK ! (4 * rounds - 4 * n),
            4 * n + 1 := XEK ! (4 * rounds - 4 * n + 1),
            4 * n + 2 := XEK ! (4 * rounds - 4 * n + 2),
            4 * n + 3 := XEK ! (4 * rounds - 4 * n + 3)]"
    by (simp add: reverse_upto_def Let_def)
  show ?case
  proof (cases "k = n")
    case True
    have "j = 0 \<or> j = 1 \<or> j = 2 \<or> j = 3"
      using Suc.prems(3) by linarith
    then show ?thesis
      using Suc.prems(1) True len unfolding step by (elim disjE) simp_all
  next
    case False
    then have kn: "k < n" using Suc.prems(2) by simp
    then have ne: "4 * k + j \<noteq> 4 * n" "4 * k + j \<noteq> 4 * n + 1" "4 * k + j \<noteq> 4 * n + 2"
      "4 * k + j \<noteq> 4 * n + 3"
      using Suc.prems(3) by linarith+
    have "?prev ! (4 * k + j) = XEK ! (4 * rounds - 4 * k + j)"
      using Suc.prems kn by (intro Suc.IH) simp_all
    then show ?thesis
      unfolding step using ne by simp
  qed
qed

lemma reverse_keys_nth:
  "4 * (rounds + 1) \<le> length XDK \<Longrightarrow> k \<le> rounds \<Longrightarrow> j < 4 \<Longrightarrow>
   reverse_keys rounds XEK XDK ! (4 * k + j) = XEK ! (4 * rounds - 4 * k + j)"
  using reverse_upto_nth [of "rounds + 1" XDK k j rounds XEK]
  by (simp add: reverse_keys_def reverse_upto_def)

lemma foldl_pointwise:
  "b \<le> length xs \<Longrightarrow> i < length xs \<Longrightarrow>
   foldl (\<lambda>xs i. xs[i := f (xs ! i)]) xs [a..<b] ! i =
     (if a \<le> i \<and> i < b then f (xs ! i) else xs ! i)"
proof (induction b)
  case 0
  then show ?case by simp
next
  case (Suc b)
  have len: "length (foldl (\<lambda>xs i. xs[i := f (xs ! i)]) xs [a..<b]) = length xs"
    by (rule foldl_length) simp
  show ?case
  proof (cases "a \<le> b")
    case True
    then show ?thesis
      using Suc len by (auto simp: nth_list_update)
  next
    case False
    then show ?thesis using Suc by auto
  qed
qed

lemma inv_mix_keys_nth:
  "len + 24 \<le> length XDK \<Longrightarrow> i < length XDK \<Longrightarrow>
   inv_mix_keys len XDK ! i =
     (if 4 \<le> i \<and> i < len + 24 then inv_mix_word (XDK ! i) else XDK ! i)"
  unfolding inv_mix_keys_def by (rule foldl_pointwise)

subsection \<open>The cache-line sweep\<close>

lemma sweep_returns: "0 < step \<Longrightarrow> \<exists>Z'. sweep T step i Z = Some Z'"
proof (induction "256 - i" arbitrary: i Z rule: less_induct)
  case less
  show ?case
  proof (cases "i < 256")
    case True
    then have "256 - (i + step) < 256 - i"
      using less.prems by simp
    then obtain Z' where "sweep T step (i + step) (Z OR T i) = Some Z'"
      using less.hyps less.prems by blast
    then show ?thesis
      using True by (subst sweep.simps) simp
  next
    case False
    then show ?thesis
      by (subst sweep.simps) simp
  qed
qed

lemma SE_82: "SE ! 82 = 0"
  by (simp add: SE_def)

lemma SD_99: "SD ! 99 = 0"
  by (simp add: SD_def)

lemma TE_82: "AES_TE ! 82 = 0"
  by (simp add: AES_TE_def Let_def SE_82 xtime_0 xtime3_def make_uint32_0)

lemma TD_99: "AES_TD ! 99 = 0"
  by (simp add: AES_TD_def SD_99 InvMixColumn_0)

lemma sweep_TE_zero: "sweep_TE cls = Some Z \<Longrightarrow> Z = 0"
  by (auto simp: sweep_TE_def TE_82 split: option.splits)

lemma sweep_TD_zero: "sweep_TD cls = Some Z \<Longrightarrow> Z = 0"
  by (auto simp: sweep_TD_def TD_99 split: option.splits)

lemma sweep_TE_returns: "4 \<le> cls \<Longrightarrow> sweep_TE cls = Some 0"
proof -
  assume "4 \<le> cls"
  then have "0 < cls div 4"
    by (simp add: div_greater_zero_iff)
  then obtain Z where "sweep (\<lambda>i. AES_TE ! i) (cls div 4) 0 0 = Some Z"
    using sweep_returns by blast
  then show ?thesis
    by (simp add: sweep_TE_def TE_82)
qed

lemma sweep_TD_returns: "4 \<le> cls \<Longrightarrow> sweep_TD cls = Some 0"
proof -
  assume c: "4 \<le> cls"
  then have "0 < cls div 4"
    by (simp add: div_greater_zero_iff)
  then obtain Z where Z: "sweep (\<lambda>i. AES_TD ! i) (cls div 4) 0 0 = Some Z"
    using sweep_returns by blast
  have "0 < cls" using c by simp
  then obtain Z' where "sweep (\<lambda>i. ucast (SD ! i)) cls 0 Z = Some Z'"
    using sweep_returns by blast
  then show ?thesis
    by (simp add: sweep_TD_def Z TD_99)
qed

text \<open>
  Claim C5.  The table entries that mask the accumulator of the cache-line sweep are zero:
  \<open>SE[82] = 0\<close>, hence \<open>TE[82] = 0\<close>, and \<open>SD[99] = 0\<close>, hence \<open>TD[99] = 0\<close>.  Therefore,
  for every key schedule and input, whatever \<^verbatim>\<open>aes_encrypt_n\<close> and \<^verbatim>\<open>aes_decrypt_n\<close>
  return is what the block loop computes with \<open>Z = 0\<close>; and they do return when the cache
  line size is at least 4 bytes, so that the sweep advances.
\<close>
theorem sweep_mask_is_zero:
  "SE ! 82 = 0 \<and> AES_TE ! 82 = 0 \<and> SD ! 99 = 0 \<and> AES_TD ! 99 = 0
   \<and> (\<forall>res. aes_encrypt_n cls input blocks EK ME = Some res \<longrightarrow>
          res = (if length EK \<noteq> 0 \<and> length ME = 16
                 then Inr (enc_blocks 0 input blocks EK ME) else Inl Assertion_Failure))
   \<and> (\<forall>res. aes_decrypt_n cls input blocks DK MD = Some res \<longrightarrow>
          res = (if length DK \<noteq> 0 \<and> length MD = 16
                 then Inr (dec_blocks 0 input blocks DK MD) else Inl Assertion_Failure))
   \<and> (4 \<le> cls \<longrightarrow> aes_encrypt_n cls input blocks EK ME \<noteq> None
                  \<and> aes_decrypt_n cls input blocks DK MD \<noteq> None)"
  by (auto simp: SE_82 SD_99 TE_82 TD_99 aes_encrypt_n_def aes_decrypt_n_def
                 sweep_TE_returns sweep_TD_returns
           dest: sweep_TE_zero sweep_TD_zero split: option.splits)

theorem sweep_mask_is_zero_witness:
  "aes_encrypt_n 64 (replicate 16 0) 1 (replicate 40 0) (replicate 16 0)
     = Some (Inr (enc_blocks 0 (replicate 16 0) 1 (replicate 40 0) (replicate 16 0)))
   \<and> aes_decrypt_n 64 (replicate 16 0) 1 (replicate 40 0) (replicate 16 0)
     = Some (Inr (dec_blocks 0 (replicate 16 0) 1 (replicate 40 0) (replicate 16 0)))"
  using sweep_mask_is_zero [of 64 "replicate 16 0" 1 "replicate 40 0" "replicate 16 0"
                               "replicate 40 0" "replicate 16 0"]
  by auto

subsection \<open>The key schedule: what is stored\<close>

lemma length_final_XEK: "length (final_XEK key) = length key + 32"
proof -
  have "length (foldl (\<lambda>XEK i. XEK[i := load_be key i]) (replicate (length key + 32) 0)
                 [0..<length key div 4]) = length key + 32"
    by (subst foldl_length) simp_all
  then show ?thesis
    by (simp add: final_XEK_def Let_def length_expand_outer)
qed

lemma upt_0_4: "[0..<4] = [0, 1, 2, 3]"
  by (simp add: upt_rec [of 0 4] upt_rec [of 1 4] upt_rec [of 2 4] upt_rec [of 3 4]
                upt_rec [of "Suc 0" 4] upt_rec [of "Suc (Suc 0)" 4]
                upt_rec [of 4 4] eval_nat_numeral)

lemma aes_key_schedule_eq:
  assumes "length key div 4 = 4 \<or> length key div 4 = 6 \<or> length key div 4 = 8"
  shows "aes_key_schedule key =
     Inr (take (length key + 24) (final_XEK key),
          take (length key + 24)
            (inv_mix_keys (length key)
               (reverse_keys (length key div 4 + 6) (final_XEK key)
                  (replicate (length key + 32) 0))),
          bytes4 (key4 (final_XEK key) (4 * (length key div 4 + 6))),
          bytes4 (key4 (final_XEK key) 0))"
proof -
  have ME: "concat (map (\<lambda>i. store_be (final_XEK key ! (i + 4 * (length key div 4 + 6)))) [0..<4])
              = bytes4 (key4 (final_XEK key) (4 * (length key div 4 + 6)))"
    unfolding upt_0_4 by (simp add: bytes4_def key4_def add.commute)
  have MD: "concat (map (\<lambda>i. store_be (final_XEK key ! i)) [0..<4])
              = bytes4 (key4 (final_XEK key) 0)"
    unfolding upt_0_4 by (simp add: bytes4_def key4_def numeral_2_eq_2)
  have "aes_key_schedule key =
     Inr (take (length key + 24) (final_XEK key),
          take (length key + 24)
            (inv_mix_keys (length key)
               (reverse_keys (length key div 4 + 6) (final_XEK key)
                  (replicate (length key + 32) 0))),
          concat (map (\<lambda>i. store_be (final_XEK key ! (i + 4 * (length key div 4 + 6)))) [0..<4]),
          concat (map (\<lambda>i. store_be (final_XEK key ! i)) [0..<4]))"
    using assms unfolding aes_key_schedule_def final_XEK_def Let_def by simp
  then show ?thesis
    unfolding ME MD .
qed

lemma length_bytes4: "length (bytes4 A) = 16"
  by (cases A) (auto simp: bytes4_def store_be_def)

lemma schedule_word_counts:
  assumes "length key = 16 \<or> length key = 24 \<or> length key = 32"
  shows "\<exists>EK DK ME MD. aes_key_schedule key = Inr (EK, DK, ME, MD)
           \<and> length EK = length key + 24 \<and> length DK = length key + 24
           \<and> length ME = 16 \<and> length MD = 16"
proof -
  have X: "length key div 4 = 4 \<or> length key div 4 = 6 \<or> length key div 4 = 8"
    using assms by auto
  show ?thesis
    unfolding aes_key_schedule_eq [OF X]
    by (simp add: length_final_XEK length_inv_mix_keys length_reverse_keys length_bytes4)
qed

text \<open>
  Claim C6 as stated fails.  For a 16-byte key the stored sequences \<open>EK\<close> and \<open>DK\<close> have
  40 words each, not \<open>16 / 4 + 24 = 28\<close>: the source resizes them to \<open>length + 24\<close> with
  \<open>length\<close> the key length in bytes.
\<close>
theorem schedule_words_counterexample:
  "length (fst (projr (aes_key_schedule (replicate 16 0)))) = 40
   \<and> length (fst (snd (projr (aes_key_schedule (replicate 16 0))))) = 40
   \<and> length (fst (projr (aes_key_schedule (replicate 16 0)))) \<noteq> 16 div 4 + 24
   \<and> length (fst (snd (projr (aes_key_schedule (replicate 16 0))))) \<noteq> 16 div 4 + 24"
  using schedule_word_counts [of "replicate 16 0"] by auto

text \<open>
  Claim C6, amended.  After every call to the AES key schedule with a valid key length
  (16, 24 or 32 bytes) the call returns, and the stored word sequences \<open>EK\<close> and \<open>DK\<close>
  each have \<open>key_len + 24\<close> words, with \<open>key_len\<close> in bytes (40, 48 or 56 words).
\<close>
theorem key_schedule_length:
  assumes "length key = 16 \<or> length key = 24 \<or> length key = 32"
  shows "\<exists>EK DK ME MD. aes_key_schedule key = Inr (EK, DK, ME, MD)
           \<and> length EK = length key + 24 \<and> length DK = length key + 24"
  using schedule_word_counts [OF assms] by blast

theorem key_schedule_length_witness:
  "length (map of_nat [0..<24] :: u8 list) = 24
   \<and> (\<exists>EK DK ME MD. aes_key_schedule (map of_nat [0..<24]) = Inr (EK, DK, ME, MD)
          \<and> length EK = 48 \<and> length DK = 48)"
  using key_schedule_length [of "map of_nat [0..<24]"] by simp




end
